theory Spec2Isabelle
  imports Complex_Main "HOL-Library.Word" "HOL-Library.Signed_Division" "HOL-Library.Monad_Syntax"
begin

unbundle bit_operations_syntax

section \<open>C integers and memory\<close>

text \<open>
  \<^verbatim>\<open>bitmap.c\<close> computes with \<^verbatim>\<open>int\<close> (32 bits, two's complement), \<^verbatim>\<open>short\<close>
  (16 bits) and \<^verbatim>\<open>unsigned char\<close>. They are words here: \<open>+\<close>, \<open>-\<close> and \<open>*\<close> wrap
  around, \<open>sint\<close> reads the signed value, \<open>\<le>s\<close> and \<open><s\<close> compare signed values.
  \<^verbatim>\<open>/\<close> and \<^verbatim>\<open>%\<close> of C truncate towards zero (\<open>sdiv\<close>, \<open>smod\<close>).
\<close>

type_synonym cint = "32 word"
type_synonym cshort = "16 word"
type_synonym byte = "8 word"

definition c_div :: "cint \<Rightarrow> cint \<Rightarrow> cint" where
  "c_div a b = word_of_int (sint a sdiv sint b)"

definition c_mod :: "cint \<Rightarrow> cint \<Rightarrow> cint" where
  "c_mod a b = word_of_int (sint a smod sint b)"

text \<open>The conversion of an \<^verbatim>\<open>int\<close> to \<^verbatim>\<open>size_t\<close> (64 bits): sign extension, read unsigned.\<close>

definition size_t :: "cint \<Rightarrow> nat" where
  "size_t n = unat (scast n :: 64 word)"

text \<open>
  An array is a list. An access outside it is undefined behaviour in C: the model
  stops with \<open>None\<close> there.
\<close>

definition array_get :: "'a list \<Rightarrow> cint \<Rightarrow> 'a option" where
  "array_get a i = (if 0 \<le> sint i \<and> nat (sint i) < length a then Some (a ! nat (sint i)) else None)"

definition array_set :: "'a list \<Rightarrow> cint \<Rightarrow> 'a \<Rightarrow> 'a list option" where
  "array_set a i v = (if 0 \<le> sint i \<and> nat (sint i) < length a then Some (a[nat (sint i) := v]) else None)"

text \<open>The bytes of an object in memory, lowest-order byte first (a little-endian machine).\<close>

definition bytes_of_int :: "cint \<Rightarrow> byte list" where
  "bytes_of_int v = [ucast v, ucast (drop_bit 8 v), ucast (drop_bit 16 v), ucast (drop_bit 24 v)]"

definition bytes_of_short :: "cshort \<Rightarrow> byte list" where
  "bytes_of_short v = [ucast v, ucast (drop_bit 8 v)]"

section \<open>The bitmap structures and macros\<close>

definition BITCOUNT :: cint where
  "BITCOUNT = 24"

record bitmapHeader =
  bfType :: "byte list"
  fileSize :: cint
  reserved :: cint
  imageOffset :: cint
  headerSize :: cint
  width :: cint
  height :: cint
  planes :: cshort
  bitCount :: cshort
  compression :: cint
  imageSize :: cint
  xPixelsPerMeter :: cint
  yPixelsPerMeter :: cint
  colorsUsed :: cint
  colorsImportant :: cint

record bitmapData =
  header :: bitmapHeader
  pixelBuffer :: "cint list"

text \<open>
  The structure is packed: its bytes in memory are the bytes of its fields in order,
  2 for \<^verbatim>\<open>bfType\<close>, 2 for each \<^verbatim>\<open>short\<close> and 4 for each \<^verbatim>\<open>int\<close>, 54 in all.
\<close>

definition sizeof_bitmapHeader :: nat where
  "sizeof_bitmapHeader = 54"

definition sizeof_bitmapData :: nat where
  "sizeof_bitmapData = 64"

definition sizeof_int :: nat where
  "sizeof_int = 4"

definition bytes_of_header :: "bitmapHeader \<Rightarrow> byte list" where
  "bytes_of_header h =
     take 2 (bfType h) @ bytes_of_int (fileSize h) @ bytes_of_int (reserved h) @
     bytes_of_int (imageOffset h) @ bytes_of_int (headerSize h) @ bytes_of_int (width h) @
     bytes_of_int (height h) @ bytes_of_short (planes h) @ bytes_of_short (bitCount h) @
     bytes_of_int (compression h) @ bytes_of_int (imageSize h) @
     bytes_of_int (xPixelsPerMeter h) @ bytes_of_int (yPixelsPerMeter h) @
     bytes_of_int (colorsUsed h) @ bytes_of_int (colorsImportant h)"

definition BMP_BYTES_PER_LINE :: "cint \<Rightarrow> cint \<Rightarrow> cint" where
  "BMP_BYTES_PER_LINE w bits = c_div (w * bits + 31) 32 * 4"

definition GET_PIXEL_INDEX :: "cint \<Rightarrow> cint \<Rightarrow> cint \<Rightarrow> cint" where
  "GET_PIXEL_INDEX x y w = x + y * w"

definition PIXCOLOR :: "cint \<Rightarrow> cint \<Rightarrow> cint \<Rightarrow> cint" where
  "PIXCOLOR r g b = r OR push_bit 8 g OR push_bit 16 b"

section \<open>The output stream\<close>

text \<open>
  A stream records the bytes that reached the file. A stream that does not accept
  writes (a full device, say) drops them, and \<^verbatim>\<open>fwrite\<close> returns 0 items written.
\<close>

record FILE =
  written :: "byte list"
  accepting :: bool

definition fwrite :: "byte list \<Rightarrow> nat \<Rightarrow> nat \<Rightarrow> FILE \<Rightarrow> nat \<times> FILE" where
  "fwrite ptr sz nmemb stream =
     (if accepting stream
      then (nmemb, stream\<lparr>written := written stream @ take (sz * nmemb) ptr\<rparr>)
      else (0, stream))"

definition strncpy :: "byte list \<Rightarrow> byte list \<Rightarrow> nat \<Rightarrow> byte list" where
  "strncpy dest src n = take n (src @ replicate n 0) @ drop n dest"

section \<open>Writing the bitmap\<close>

text \<open>
  The inner loop of \<^verbatim>\<open>writeBitmapData\<close>: the columns \<open>x\<close>, \<open>x + 1\<close>, ... of row \<open>y\<close>
  are packed into the line buffer.
\<close>

function fillLine :: "bitmapData \<Rightarrow> cint \<Rightarrow> cint \<Rightarrow> byte list \<Rightarrow> byte list option" where
  "fillLine bitmap y x lineBuffer =
     (if x <s width (header bitmap) then
        do {
          currentPixel \<leftarrow> array_get (pixelBuffer bitmap)
                            (GET_PIXEL_INDEX x y (width (header bitmap)));
          let lineStart = x * 3;
          let pixelAsBytes = bytes_of_int currentPixel;
          lb1 \<leftarrow> array_set lineBuffer lineStart (pixelAsBytes ! 0);
          lb2 \<leftarrow> array_set lb1 (lineStart + 1) (pixelAsBytes ! 1);
          lb3 \<leftarrow> array_set lb2 (lineStart + 2) (pixelAsBytes ! 2);
          fillLine bitmap y (x + 1) lb3
        }
      else Some lineBuffer)"
  by pat_completeness auto
termination
proof (relation "measure (\<lambda>(bitmap, y, x, lineBuffer). nat (sint (width (header bitmap)) - sint x))")
  show "wf (measure (\<lambda>(bitmap, y, x, lineBuffer). nat (sint (width (header bitmap)) - sint x)))"
    by simp
next
  fix bitmap :: bitmapData and y x :: cint and lineBuffer :: "byte list"
  assume "x <s width (header bitmap)"
  then have lt: "sint x < sint (width (header bitmap))"
    by (simp add: word_sless_alt)
  moreover have "sint (width (header bitmap)) < 2147483648"
    using sint_range_size [of "width (header bitmap)"] by (simp add: word_size)
  moreover have "- 2147483648 \<le> sint x"
    using sint_range_size [of x] by (simp add: word_size)
  ultimately have "sint (x + 1) = sint x + 1"
    by (simp add: sint_word_ariths signed_take_bit_int_eq_self)
  with lt show "((bitmap, y, x + 1, lb3), (bitmap, y, x, lineBuffer))
      \<in> measure (\<lambda>(bitmap, y, x, lineBuffer). nat (sint (width (header bitmap)) - sint x))"
    for lb3 :: "byte list"
    by simp
qed

text \<open>
  The outer loop: rows \<open>y\<close>, \<open>y - 1\<close>, ... down to 0, each packed into the one line
  buffer and written.
\<close>

function writeRows :: "FILE \<Rightarrow> bitmapData \<Rightarrow> cint \<Rightarrow> cint \<Rightarrow> byte list \<Rightarrow> FILE option" where
  "writeRows output bitmap bytesPerRow y lineBuffer =
     (if 0 \<le>s y then
        do {
          lb \<leftarrow> fillLine bitmap y 0 lineBuffer;
          let output' = snd (fwrite lb 1 (size_t bytesPerRow) output);
          writeRows output' bitmap bytesPerRow (y - 1) lb
        }
      else Some output)"
  by pat_completeness auto
termination
proof (relation "measure (\<lambda>(output, bitmap, bytesPerRow, y, lineBuffer). nat (sint y + 1))")
  show "wf (measure (\<lambda>(output, bitmap, bytesPerRow, y, lineBuffer). nat (sint y + 1)))"
    by simp
next
  fix out out' :: FILE and bitmap :: bitmapData and bytesPerRow y :: cint
    and lineBuffer lb :: "byte list"
  assume "0 \<le>s y"
  then have ge: "0 \<le> sint y"
    by (simp add: word_sle_eq)
  moreover have "sint y < 2147483648"
    using sint_range_size [of y] by (simp add: word_size)
  ultimately have "sint (y - 1) = sint y - 1"
    by (simp add: sint_word_ariths signed_take_bit_int_eq_self)
  with ge show "((out', bitmap, bytesPerRow, y - 1, lb), (out, bitmap, bytesPerRow, y, lineBuffer))
      \<in> measure (\<lambda>(output, bitmap, bytesPerRow, y, lineBuffer). nat (sint y + 1))"
    by simp
qed

text \<open>
  \<^verbatim>\<open>writeBitmapData\<close> fills the header in, writes it, and writes the rows. The line
  buffer is a variable-length array that the code never initialises: \<open>stack\<close> gives the
  bytes that the memory it is placed on holds. A negative size is undefined behaviour; the
  size 0 gives an empty buffer, into which nothing can be stored. The result is the
  status, the stream and the bitmap, whose header changed; \<open>None\<close> is a run that met
  undefined behaviour.
\<close>

definition writeBitmapData ::
  "(nat \<Rightarrow> byte) \<Rightarrow> FILE \<Rightarrow> bitmapData \<Rightarrow> (cint \<times> FILE \<times> bitmapData) option" where
  "writeBitmapData stack output bitmap =
     (let bytesPerRow = BMP_BYTES_PER_LINE (width (header bitmap)) BITCOUNT;
          imageFullSize = bytesPerRow * height (header bitmap);
          h1 = (header bitmap)\<lparr>bfType := strncpy (bfType (header bitmap)) [0x42, 0x4D] 2\<rparr>;
          h2 = h1\<lparr>headerSize := 40\<rparr>;
          h3 = h2\<lparr>imageOffset := of_nat sizeof_bitmapHeader\<rparr>;
          h4 = h3\<lparr>planes := 1\<rparr>;
          h5 = h4\<lparr>bitCount := ucast BITCOUNT\<rparr>;
          h6 = h5\<lparr>reserved := 0\<rparr>;
          h7 = h6\<lparr>colorsImportant := 0\<rparr>;
          h8 = h7\<lparr>colorsUsed := 0\<rparr>;
          h9 = h8\<lparr>imageSize := imageFullSize\<rparr>;
          h10 = h9\<lparr>fileSize := imageFullSize + imageOffset h9\<rparr>;
          h11 = h10\<lparr>xPixelsPerMeter := 0\<rparr>;
          h12 = h11\<lparr>yPixelsPerMeter := 0\<rparr>;
          bitmap' = bitmap\<lparr>header := h12\<rparr>;
          output1 = snd (fwrite (bytes_of_header (header bitmap')) sizeof_bitmapHeader 1 output)
      in if 0 \<le>s bytesPerRow then
           do {
             output2 \<leftarrow> writeRows output1 bitmap' bytesPerRow (height (header bitmap') - 1)
                          (map stack [0..<nat (sint bytesPerRow)]);
             Some (0, output2, bitmap')
           }
         else None)"

text \<open>
  \<^verbatim>\<open>saveBitmap\<close>: \<open>fopen\<close> gives the stream of a file name, or \<open>None\<close> when the file
  cannot be opened. The result is the status, the stream after \<^verbatim>\<open>fclose\<close> (if one was
  opened) and the bitmap; \<open>None\<close> is again a run that met undefined behaviour.
\<close>

definition saveBitmap ::
  "(string \<Rightarrow> FILE option) \<Rightarrow> (nat \<Rightarrow> byte) \<Rightarrow> string \<Rightarrow> bitmapData
     \<Rightarrow> (cint \<times> FILE option \<times> bitmapData) option" where
  "saveBitmap fopen stack filename bitmap =
     (case fopen filename of
        None \<Rightarrow> Some (- 1, None, bitmap)
      | Some output \<Rightarrow>
          do {
            (r, output', bitmap') \<leftarrow> writeBitmapData stack output bitmap;
            Some (0, Some output', bitmap')
          })"

section \<open>Creating the bitmap\<close>

text \<open>
  \<^verbatim>\<open>calloc\<close> is a parameter: \<open>calloc nmemb size\<close> says whether the request is granted.
  Granted memory is zero. The result of \<^verbatim>\<open>newBitmap\<close> is the bitmap, or \<open>None\<close> for the
  null pointer.
\<close>

definition calloc_bitmapData :: bitmapData where
  "calloc_bitmapData =
     \<lparr>header = \<lparr>bfType = [0, 0], fileSize = 0, reserved = 0, imageOffset = 0, headerSize = 0,
                 width = 0, height = 0, planes = 0, bitCount = 0, compression = 0,
                 imageSize = 0, xPixelsPerMeter = 0, yPixelsPerMeter = 0, colorsUsed = 0,
                 colorsImportant = 0\<rparr>,
      pixelBuffer = []\<rparr>"

definition newBitmap :: "(nat \<Rightarrow> nat \<Rightarrow> bool) \<Rightarrow> cint \<Rightarrow> cint \<Rightarrow> bitmapData option" where
  "newBitmap calloc w h =
     (if \<not> calloc 1 sizeof_bitmapData then None
      else
        let bitmap = calloc_bitmapData;
            bitmap1 = bitmap\<lparr>header := (header bitmap)\<lparr>width := w\<rparr>\<rparr>;
            bitmap2 = bitmap1\<lparr>header := (header bitmap1)\<lparr>height := h\<rparr>\<rparr>;
            numberOfPixels = width (header bitmap2) * height (header bitmap2)
        in if \<not> calloc (size_t numberOfPixels) sizeof_int then None
           else Some (bitmap2\<lparr>pixelBuffer := replicate (size_t numberOfPixels) 0\<rparr>))"

section \<open>Drawing\<close>

definition putPixel ::
  "bitmapData \<Rightarrow> cint \<Rightarrow> cint \<Rightarrow> cint \<Rightarrow> cint \<Rightarrow> cint \<Rightarrow> bitmapData option" where
  "putPixel bitmap x y red green blue =
     do {
       pb \<leftarrow> array_set (pixelBuffer bitmap) (GET_PIXEL_INDEX x y (width (header bitmap)))
               (PIXCOLOR red green blue);
       Some (bitmap\<lparr>pixelBuffer := pb\<rparr>)
     }"

definition drawCircle :: "bitmapData \<Rightarrow> cint \<Rightarrow> cint \<Rightarrow> cint \<Rightarrow> cint \<Rightarrow> bitmapData option" where
  "drawCircle bitmap xc yc x y =
     (let red = c_mod x 255;
          green = c_mod y 255;
          blue = 255 - c_mod x 255
      in do {
           b1 \<leftarrow> putPixel bitmap (xc + x) (yc + y) red green blue;
           b2 \<leftarrow> putPixel b1 (xc - x) (yc + y) red green blue;
           b3 \<leftarrow> putPixel b2 (xc + x) (yc - y) red green blue;
           b4 \<leftarrow> putPixel b3 (xc - x) (yc - y) red green blue;
           b5 \<leftarrow> putPixel b4 (xc + y) (yc + x) red green blue;
           b6 \<leftarrow> putPixel b5 (xc - y) (yc + x) red green blue;
           b7 \<leftarrow> putPixel b6 (xc + y) (yc - x) red green blue;
           putPixel b7 (xc - y) (yc - x) red green blue
         })"

text \<open>
  One pass of the loop of \<^verbatim>\<open>circleBres\<close>, from the state \<open>(bitmap, x, y, d)\<close> to the
  next one.
\<close>

definition circleBody ::
  "bitmapData \<Rightarrow> cint \<Rightarrow> cint \<Rightarrow> cint \<Rightarrow> cint \<Rightarrow> cint
     \<Rightarrow> (bitmapData \<times> cint \<times> cint \<times> cint) option" where
  "circleBody bitmap xc yc x y d =
     do {
       b1 \<leftarrow> drawCircle bitmap xc yc x y;
       let x = x + 1;
       let (y, d) = (if 0 <s d then (y - 1, d + 4 * (x - (y - 1)) + 10) else (y, d + 4 * x + 6));
       b2 \<leftarrow> drawCircle b1 xc yc x y;
       Some (b2, x, y, d)
     }"

text \<open>
  The loop itself. It is not a structural recursion, and with wrap-around its exit is not
  obvious, so the result has two layers: \<open>None\<close> is a loop that never exits,
  \<open>Some None\<close> a run that met undefined behaviour (a write outside the pixel buffer),
  \<open>Some (Some b)\<close> a run that returned with the bitmap \<open>b\<close>.
\<close>

partial_function (option) circleLoop ::
  "bitmapData \<Rightarrow> cint \<Rightarrow> cint \<Rightarrow> cint \<Rightarrow> cint \<Rightarrow> cint \<Rightarrow> bitmapData option option" where
  "circleLoop bitmap xc yc x y d =
     (if x \<le>s y then
        (case circleBody bitmap xc yc x y d of
           None \<Rightarrow> Some None
         | Some (bitmap', x', y', d') \<Rightarrow> circleLoop bitmap' xc yc x' y' d')
      else Some (Some bitmap))"

declare circleLoop.simps [code]

definition circleBres :: "bitmapData \<Rightarrow> cint \<Rightarrow> cint \<Rightarrow> cint \<Rightarrow> bitmapData option option" where
  "circleBres bitmap xc yc r = circleLoop bitmap xc yc 0 r (3 - 2 * r)"

section \<open>Reading the drawing code\<close>

text \<open>
  The bitmap that \<^verbatim>\<open>newBitmap\<close> returns when both of its requests are granted.
\<close>

definition blankBitmap :: "cint \<Rightarrow> cint \<Rightarrow> bitmapData" where
  "blankBitmap w h =
     \<lparr>header = (header calloc_bitmapData)\<lparr>width := w, height := h\<rparr>,
      pixelBuffer = replicate (size_t (w * h)) 0\<rparr>"

text \<open>
  Writing one colour at each point of a list, in order, as \<^verbatim>\<open>putPixel\<close> does; and the
  8 symmetric points of \<^verbatim>\<open>drawCircle\<close>, in the order in which it writes them.
\<close>

fun plot :: "bitmapData \<Rightarrow> (cint \<times> cint) list \<Rightarrow> cint \<Rightarrow> bitmapData option" where
  "plot b [] c = Some b"
| "plot b ((px, py) # ps) c =
     do {
       pb \<leftarrow> array_set (pixelBuffer b) (GET_PIXEL_INDEX px py (width (header b))) c;
       plot (b\<lparr>pixelBuffer := pb\<rparr>) ps c
     }"

definition octants :: "cint \<Rightarrow> cint \<Rightarrow> cint \<Rightarrow> cint \<Rightarrow> (cint \<times> cint) list" where
  "octants xc yc x y =
     [(xc + x, yc + y), (xc - x, yc + y), (xc + x, yc - y), (xc - x, yc - y),
      (xc + y, yc + x), (xc - y, yc + x), (xc + y, yc - x), (xc - y, yc - x)]"




section \<open>Reading the encoder's output\<close>

text \<open>
  The three bytes that the encoder takes from the cell of column \<open>x\<close> in row \<open>y\<close>, and
  the pixel bytes of a whole row, column after column.
\<close>

definition pixelBytes :: "bitmapData \<Rightarrow> cint \<Rightarrow> cint \<Rightarrow> byte list" where
  "pixelBytes bitmap x y =
     take 3 (bytes_of_int
       (pixelBuffer bitmap ! nat (sint (GET_PIXEL_INDEX x y (width (header bitmap))))))"

definition scanline :: "bitmapData \<Rightarrow> cint \<Rightarrow> byte list" where
  "scanline bitmap y =
     concat (map (\<lambda>x. pixelBytes bitmap (of_nat x) y) [0..<nat (sint (width (header bitmap)))])"

declare fillLine.simps [simp del]

declare writeRows.simps [simp del]

section \<open>Arithmetic without overflow\<close>

lemma sint_range32: "- 2147483648 \<le> sint (w :: cint) \<and> sint w < 2147483648"
  using sint_range_size [of w] by (simp add: word_size)

lemma sint_of_int32:
  "- 2147483648 \<le> k \<Longrightarrow> k < 2147483648 \<Longrightarrow> sint (word_of_int k :: cint) = k"
  by (simp add: int_word_sint)

lemma sint_add32:
  "- 2147483648 \<le> sint a + sint b \<Longrightarrow> sint a + sint b < 2147483648
     \<Longrightarrow> sint (a + b :: cint) = sint a + sint b"
  by (simp add: sint_word_ariths signed_take_bit_int_eq_self)

lemma sint_sub32:
  "- 2147483648 \<le> sint a - sint b \<Longrightarrow> sint a - sint b < 2147483648
     \<Longrightarrow> sint (a - b :: cint) = sint a - sint b"
  by (simp add: sint_word_ariths signed_take_bit_int_eq_self)

lemma sint_mult32:
  "- 2147483648 \<le> sint a * sint b \<Longrightarrow> sint a * sint b < 2147483648
     \<Longrightarrow> sint (a * b :: cint) = sint a * sint b"
  by (simp add: sint_word_ariths signed_take_bit_int_eq_self)

section \<open>The row stride\<close>

lemma stride_sint:
  assumes "0 < sint w" "sint w \<le> 89478484"
  shows "sint (BMP_BYTES_PER_LINE w 24) = (sint w * 24 + 31) div 32 * 4"
proof -
  have a: "sint (w * 24) = sint w * 24"
    using assms by (simp add: sint_mult32)
  have b: "sint (w * 24 + 31) = sint w * 24 + 31"
    using assms a by (simp add: sint_add32)
  have c: "(sint w * 24 + 31) sdiv 32 = (sint w * 24 + 31) div 32"
    using assms by (simp add: signed_divide_int_def sgn_if)
  have d: "sint (c_div (w * 24 + 31) 32) = (sint w * 24 + 31) div 32"
    unfolding c_div_def using assms b c by (simp add: sint_of_int32)
  show ?thesis
    unfolding BMP_BYTES_PER_LINE_def using assms d by (simp add: sint_mult32)
qed

lemma ceiling_24_32: "\<lceil>real_of_int (k * 24) / 32\<rceil> = (k * 24 + 31) div 32"
proof -
  have "\<lceil>real_of_int (k * 24) / real_of_int 32\<rceil> = - (- (k * 24) div 32)"
    by (rule ceiling_divide_eq_div)
  also have "\<dots> = (k * 24 + 31) div 32"
    by linarith
  finally show ?thesis by simp
qed

text \<open>
  C7, as the code has it. For every width from 1 to 89478484, the widths whose
  \<open>width * 24 + 31\<close> fits the 32-bit \<^verbatim>\<open>int\<close> of the macro, the row stride is
  \<open>ceil(width * 24 / 32) * 4\<close>, is divisible by 4 and is at least \<open>width * 3\<close>.
\<close>

theorem row_stride_in_range:
  assumes "0 < sint w" and "sint w \<le> 89478484"
  shows "sint (BMP_BYTES_PER_LINE w BITCOUNT) = \<lceil>real_of_int (sint w * 24) / 32\<rceil> * 4
    \<and> 4 dvd sint (BMP_BYTES_PER_LINE w BITCOUNT)
    \<and> sint w * 3 \<le> sint (BMP_BYTES_PER_LINE w BITCOUNT)"
proof -
  have s: "sint (BMP_BYTES_PER_LINE w BITCOUNT) = (sint w * 24 + 31) div 32 * 4"
    using assms by (simp add: BITCOUNT_def stride_sint)
  show ?thesis
  proof (intro conjI)
    show "sint (BMP_BYTES_PER_LINE w BITCOUNT) = \<lceil>real_of_int (sint w * 24) / 32\<rceil> * 4"
      unfolding ceiling_24_32 by (rule s)
    show "4 dvd sint (BMP_BYTES_PER_LINE w BITCOUNT)"
      unfolding s by simp
    show "sint w * 3 \<le> sint (BMP_BYTES_PER_LINE w BITCOUNT)"
      unfolding s by linarith
  qed
qed

theorem row_stride_in_range_witness:
  "sint (BMP_BYTES_PER_LINE 5 BITCOUNT) = \<lceil>real_of_int (sint (5 :: cint) * 24) / 32\<rceil> * 4
    \<and> 4 dvd sint (BMP_BYTES_PER_LINE 5 BITCOUNT)
    \<and> sint (5 :: cint) * 3 \<le> sint (BMP_BYTES_PER_LINE 5 BITCOUNT)
    \<and> sint (BMP_BYTES_PER_LINE 5 BITCOUNT) = 16"
proof -
  have "sint (BMP_BYTES_PER_LINE 5 BITCOUNT) = 16"
    by (simp add: BMP_BYTES_PER_LINE_def BITCOUNT_def c_div_def signed_divide_int_def)
  with row_stride_in_range [of 5] show ?thesis
    by simp
qed

text \<open>
  C7 as stated fails where the multiplication overflows: the width 89478486 is positive,
  and its row stride is negative, so it is not at least \<open>width * 3\<close>.
\<close>

theorem row_stride_overflow_counterexample:
  "0 < sint (89478486 :: cint)
    \<and> sint (BMP_BYTES_PER_LINE 89478486 BITCOUNT) = - 268435448
    \<and> \<not> sint (89478486 :: cint) * 3 \<le> sint (BMP_BYTES_PER_LINE 89478486 BITCOUNT)"
  by (simp add: BMP_BYTES_PER_LINE_def BITCOUNT_def c_div_def signed_divide_int_def)

section \<open>Conversions between words and numbers\<close>

lemma size_t_nonneg:
  assumes "0 \<le> sint n"
  shows "size_t n = nat (sint n)"
proof -
  have "sint n < 2147483648" using sint_range32 [of n] by simp
  also have "(2147483648 :: int) < 2 ^ 64" by simp
  finally have lt: "sint n < 2 ^ 64" .
  have "uint (scast n :: 64 word) = take_bit LENGTH(64) (sint n)"
    by (simp only: scast_eq uint_word_of_int_eq)
  also have "\<dots> = take_bit 64 (sint n)" by simp
  also have "\<dots> = sint n" by (rule take_bit_int_eq_self [OF assms lt])
  finally have "uint (scast n :: 64 word) = sint n" .
  then show ?thesis by (simp only: size_t_def unat_eq_nat_uint)
qed

lemma ucast_of_int_byte:
  assumes "0 \<le> k" and "k < 256"
  shows "(ucast (word_of_int k :: cint) :: byte) = word_of_int k"
    and "unat (word_of_int k :: cint) = nat k"
    and "unat (word_of_int k :: byte) = nat k"
proof -
  have "k < 2 ^ 32" using assms(2) by simp
  then have u: "uint (word_of_int k :: cint) = k"
    using assms(1) by (simp add: uint_word_of_int_eq take_bit_int_eq_self)
  then show "(ucast (word_of_int k :: cint) :: byte) = word_of_int k"
    by (simp add: ucast_eq)
  show "unat (word_of_int k :: cint) = nat k"
    unfolding unat_eq_nat_uint u ..
  have "k < 2 ^ 8" using assms(2) by simp
  then have "uint (word_of_int k :: byte) = k"
    using assms(1) by (simp add: uint_word_of_int_eq take_bit_int_eq_self)
  then show "unat (word_of_int k :: byte) = nat k"
    unfolding unat_eq_nat_uint by (rule arg_cong)
qed

lemma bit_small:
  fixes r :: cint
  assumes "unat r < 256" and "bit r n"
  shows "n < 8"
proof -
  from assms(1) have "int (unat r) < 256" by linarith
  then have "uint r < 2 ^ 8" by simp
  with uint_ge_0 [of r] have "take_bit 8 (uint r) = uint r" by (rule take_bit_int_eq_self)
  moreover have "bit (uint r) n" using assms(2) bit_imp_le_length [of r n] by (simp add: bit_uint_iff)
  ultimately have "bit (take_bit 8 (uint r)) n" by simp
  then show ?thesis by (simp add: bit_take_bit_iff)
qed

section \<open>The drawing code as a list of writes\<close>

lemma drawCircle_plot:
  "drawCircle b xc yc x y =
     plot b (octants xc yc x y) (PIXCOLOR (c_mod x 255) (c_mod y 255) (255 - c_mod x 255))"
  by (simp add: drawCircle_def octants_def putPixel_def Let_def)

lemma circleBody_plot:
  "circleBody b xc yc x y d =
     (let x' = x + 1;
          y' = (if 0 <s d then y - 1 else y);
          d' = (if 0 <s d then d + 4 * (x' - y') + 10 else d + 4 * x' + 6)
      in do {
           b1 \<leftarrow> plot b (octants xc yc x y)
                   (PIXCOLOR (c_mod x 255) (c_mod y 255) (255 - c_mod x 255));
           b2 \<leftarrow> plot b1 (octants xc yc x' y')
                   (PIXCOLOR (c_mod x' 255) (c_mod y' 255) (255 - c_mod x' 255));
           Some (b2, x', y', d')
         })"
  by (simp add: circleBody_def drawCircle_plot Let_def)


lemma plot_keeps:
  "plot b ps c = Some b' \<Longrightarrow> array_get (pixelBuffer b) i = Some c
     \<Longrightarrow> array_get (pixelBuffer b') i = Some c"
proof (induction b ps c rule: plot.induct)
  case (1 b c)
  then show ?case by simp
next
  case (2 b px py ps c)
  from "2.prems"(1) obtain pb where
    pb: "array_set (pixelBuffer b) (GET_PIXEL_INDEX px py (width (header b))) c = Some pb"
    and rest: "plot (b\<lparr>pixelBuffer := pb\<rparr>) ps c = Some b'"
    by (auto split: Option.bind_splits)
  from pb "2.prems"(2) have "array_get pb i = Some c"
    by (auto simp add: array_set_def array_get_def nth_list_update split: if_splits)
  then show ?case
    using "2.IH" [OF pb rest] by simp
qed

lemma plot_header: "plot b ps c = Some b' \<Longrightarrow> header b' = header b"
proof (induction b ps c rule: plot.induct)
  case (1 b c)
  then show ?case by simp
next
  case (2 b px py ps c)
  then show ?case by (auto split: Option.bind_splits)
qed

lemma plot_sets:
  "plot b ps c = Some b' \<Longrightarrow> (px, py) \<in> set ps
     \<Longrightarrow> array_get (pixelBuffer b') (GET_PIXEL_INDEX px py (width (header b))) = Some c"
proof (induction b ps c rule: plot.induct)
  case (1 b c)
  then show ?case by simp
next
  case (2 b qx qy ps c)
  from "2.prems"(1) obtain pb where
    pb: "array_set (pixelBuffer b) (GET_PIXEL_INDEX qx qy (width (header b))) c = Some pb"
    and rest: "plot (b\<lparr>pixelBuffer := pb\<rparr>) ps c = Some b'"
    by (auto split: Option.bind_splits)
  show ?case
  proof (cases "(px, py) = (qx, qy)")
    case True
    from pb have "array_get pb (GET_PIXEL_INDEX qx qy (width (header b))) = Some c"
      by (auto simp add: array_set_def array_get_def split: if_splits)
    with plot_keeps [OF rest, of "GET_PIXEL_INDEX qx qy (width (header b))"] True
    show ?thesis by simp
  next
    case False
    with "2.prems"(2) have "(px, py) \<in> set ps" by auto
    from "2.IH" [OF pb rest this] show ?thesis by simp
  qed
qed

lemma blank33: "blankBitmap 3 3 = \<lparr>header = (header calloc_bitmapData)\<lparr>width := 3, height := 3\<rparr>,
      pixelBuffer = replicate 9 0\<rparr>"
  by (simp add: blankBitmap_def size_t_nonneg)

lemma blank1024: "blankBitmap 1024 1024 = \<lparr>header = (header calloc_bitmapData)\<lparr>width := 1024, height := 1024\<rparr>,
      pixelBuffer = replicate 1048576 0\<rparr>"
  by (simp add: blankBitmap_def size_t_nonneg)

section \<open>The colour of a step\<close>

lemma PIXCOLOR_bytes:
  assumes "unat r < 256" and "unat g < 256" and "unat b < 256"
  shows "take 3 (bytes_of_int (PIXCOLOR r g b)) = [ucast r, ucast g, ucast b]"
proof -
  have 0: "(ucast (PIXCOLOR r g b) :: byte) = ucast r"
    by (rule bit_word_eqI) (auto simp add: PIXCOLOR_def bit_simps)
  have 1: "(ucast (drop_bit 8 (PIXCOLOR r g b)) :: byte) = ucast g"
    by (intro bit_word_eqI) (auto simp add: PIXCOLOR_def bit_simps dest: bit_small [OF assms(1)])
  have 2: "(ucast (drop_bit 16 (PIXCOLOR r g b)) :: byte) = ucast b"
    by (intro bit_word_eqI)
      (auto simp add: PIXCOLOR_def bit_simps dest: bit_small [OF assms(1)] bit_small [OF assms(2)])
  show ?thesis by (simp add: bytes_of_int_def 0 1 2)
qed

lemma drawCircle_channels:
  assumes "0 \<le> sint x" and "0 \<le> sint y"
  shows "map unat (take 3 (bytes_of_int (PIXCOLOR (c_mod x 255) (c_mod y 255) (255 - c_mod x 255))))
    = [nat (sint x mod 255), nat (sint y mod 255), 255 - nat (sint x mod 255)]"
proof -
  have mx: "sint x smod 255 = sint x mod 255"
    using assms(1) by (simp add: signed_modulo_int_def sgn_if)
  have my: "sint y smod 255 = sint y mod 255"
    using assms(2) by (simp add: signed_modulo_int_def sgn_if)
  have rx: "0 \<le> sint x mod 255" "sint x mod 255 < 256"
    using pos_mod_bound [of 255 "sint x"] by simp_all
  have ry: "0 \<le> sint y mod 255" "sint y mod 255 < 256"
    using pos_mod_bound [of 255 "sint y"] by simp_all
  have rb: "0 \<le> 255 - sint x mod 255" "255 - sint x mod 255 < 256"
    using pos_mod_bound [of 255 "sint x"] by simp_all
  have cx: "c_mod x 255 = word_of_int (sint x mod 255)"
    by (simp add: c_mod_def mx)
  have cy: "c_mod y 255 = word_of_int (sint y mod 255)"
    by (simp add: c_mod_def my)
  have cb: "255 - c_mod x 255 = word_of_int (255 - sint x mod 255)"
    by (simp add: cx)
  have ux: "unat (c_mod x 255) = nat (sint x mod 255)"
    unfolding cx by (rule ucast_of_int_byte(2) [OF rx])
  have uy: "unat (c_mod y 255) = nat (sint y mod 255)"
    unfolding cy by (rule ucast_of_int_byte(2) [OF ry])
  have ub: "unat (255 - c_mod x 255) = nat (255 - sint x mod 255)"
    unfolding cb by (rule ucast_of_int_byte(2) [OF rb])
  have "take 3 (bytes_of_int (PIXCOLOR (c_mod x 255) (c_mod y 255) (255 - c_mod x 255)))
      = [ucast (c_mod x 255), ucast (c_mod y 255), ucast (255 - c_mod x 255)]"
  proof (rule PIXCOLOR_bytes)
    show "unat (c_mod x 255) < 256" unfolding ux using rx by linarith
    show "unat (c_mod y 255) < 256" unfolding uy using ry by linarith
    show "unat (255 - c_mod x 255) < 256" unfolding ub using rb by linarith
  qed
  also have "\<dots> = [word_of_int (sint x mod 255), word_of_int (sint y mod 255),
      word_of_int (255 - sint x mod 255)]"
    unfolding cb unfolding cx cy
    by (simp only: ucast_of_int_byte(1) [OF rx] ucast_of_int_byte(1) [OF ry]
        ucast_of_int_byte(1) [OF rb])
  finally have e: "take 3 (bytes_of_int (PIXCOLOR (c_mod x 255) (c_mod y 255) (255 - c_mod x 255)))
      = [word_of_int (sint x mod 255), word_of_int (sint y mod 255),
         word_of_int (255 - sint x mod 255)]" .
  have n: "nat (255 - sint x mod 255) = 255 - nat (sint x mod 255)"
    using rx by linarith
  show ?thesis
    unfolding e list.map ucast_of_int_byte(3) [OF rx] ucast_of_int_byte(3) [OF ry]
      ucast_of_int_byte(3) [OF rb] n ..
qed

text \<open>
  C1, as the code has it. After \<^verbatim>\<open>drawCircle\<close> has run for the local coordinates
  \<open>(x, y)\<close>, each of its 8 points holds the same packed colour
  \<open>PIXCOLOR (x % 255) (y % 255) (255 - x % 255)\<close>: the remainder is taken by 255, not by
  256. For \<open>x\<close> and \<open>y\<close> that are not negative, its three low bytes are \<open>x mod 255\<close>,
  \<open>y mod 255\<close> and \<open>255 - x mod 255\<close>.
\<close>

theorem drawCircle_colour:
  assumes "drawCircle b xc yc x y = Some b'" and "(px, py) \<in> set (octants xc yc x y)"
  shows "array_get (pixelBuffer b') (GET_PIXEL_INDEX px py (width (header b')))
      = Some (PIXCOLOR (c_mod x 255) (c_mod y 255) (255 - c_mod x 255))
    \<and> (0 \<le> sint x \<and> 0 \<le> sint y \<longrightarrow>
        map unat (take 3 (bytes_of_int (PIXCOLOR (c_mod x 255) (c_mod y 255) (255 - c_mod x 255))))
          = [nat (sint x mod 255), nat (sint y mod 255), 255 - nat (sint x mod 255)])"
proof -
  note p = assms(1) [unfolded drawCircle_plot]
  from plot_sets [OF p assms(2)] plot_header [OF p] drawCircle_channels [of x y]
  show ?thesis by simp
qed

theorem drawCircle_colour_witness:
  "drawCircle (blankBitmap 3 3) 1 1 0 1 =
     Some ((blankBitmap 3 3)\<lparr>pixelBuffer :=
        [0, 16711936, 0, 16711936, 0, 16711936, 0, 16711936, 0]\<rparr>)
   \<and> (1, 2) \<in> set (octants 1 1 0 1)
   \<and> array_get [0, 16711936, 0, 16711936, 0, 16711936, 0, 16711936, 0 :: cint]
         (GET_PIXEL_INDEX 1 2 3) = Some 16711936
   \<and> map unat (take 3 (bytes_of_int 16711936)) = [0, 1, 255]"
proof -
  have c: "PIXCOLOR (c_mod 0 255) (c_mod 1 255) (255 - c_mod 0 255) = 16711936"
    by (simp add: PIXCOLOR_def c_mod_def signed_modulo_int_def)
  have d: "drawCircle (blankBitmap 3 3) 1 1 0 1 =
     Some ((blankBitmap 3 3)\<lparr>pixelBuffer :=
        [0, 16711936, 0, 16711936, 0, 16711936, 0, 16711936, 0]\<rparr>)"
    unfolding drawCircle_plot c
    by (simp add: blank33 octants_def array_set_def GET_PIXEL_INDEX_def calloc_bitmapData_def
        numeral_eq_Suc)
  have m: "(1, 2) \<in> set (octants 1 1 0 1)"
    by (simp add: octants_def)
  from drawCircle_colour [OF d m] d m show ?thesis
    unfolding c by (simp add: blank33 calloc_bitmapData_def)
qed

text \<open>
  C1 as stated fails from \<open>x = 255\<close> on. On the blank 1024 by 1024 bitmap, the step with
  local coordinates \<open>(255, 300)\<close> around \<open>(512, 512)\<close> leaves the bytes 0, 45, 255 in the
  cell of the point \<open>(767, 812)\<close>; the claim has 255, 44 and 0 there.
\<close>

theorem drawCircle_colour_counterexample:
  "map_option (\<lambda>b'. map unat (take 3 (bytes_of_int (pixelBuffer b' ! 832255))))
     (drawCircle (blankBitmap 1024 1024) 512 512 255 300) = Some [0, 45, 255]
   \<and> nat (sint (GET_PIXEL_INDEX (512 + 255) (512 + 300) (width (header (blankBitmap 1024 1024))))) = 832255
   \<and> [(255 :: nat) mod 256, 300 mod 256, 255 - 255 mod 256] = [255, 44, 0]"
  by (simp add: blank1024 drawCircle_plot octants_def array_set_def GET_PIXEL_INDEX_def 
      calloc_bitmapData_def Let_def PIXCOLOR_def c_mod_def signed_modulo_int_def bytes_of_int_def 
      drop_bit_eq_div)

section \<open>The loop of \<^verbatim>\<open>circleBres\<close>\<close>

text \<open>
  C8. A pass of the loop writes the 8 symmetric points of \<open>(x, y)\<close>, then increments \<open>x\<close>
  and updates \<open>y\<close> and the decision parameter \<open>d\<close>, then writes the 8 symmetric points of
  the new \<open>(x, y)\<close>, every point of either list, in order, repeated ones too. The loop
  runs this pass whenever it is entered with \<open>y \<ge> x\<close>: a write outside the pixel buffer
  ends the run, otherwise the loop goes on from the new state while \<open>y \<ge> x\<close> holds there
  and returns the bitmap of the pass when it does not; entered with \<open>y < x\<close> it returns
  the bitmap unchanged.
\<close>

theorem circleLoop_iteration:
  "circleBody b xc yc x y d =
     (let x' = x + 1;
          y' = (if 0 <s d then y - 1 else y);
          d' = (if 0 <s d then d + 4 * (x' - y') + 10 else d + 4 * x' + 6)
      in do {
           b1 \<leftarrow> plot b (octants xc yc x y)
                   (PIXCOLOR (c_mod x 255) (c_mod y 255) (255 - c_mod x 255));
           b2 \<leftarrow> plot b1 (octants xc yc x' y')
                   (PIXCOLOR (c_mod x' 255) (c_mod y' 255) (255 - c_mod x' 255));
           Some (b2, x', y', d')
         })
   \<and> (x \<le>s y \<longrightarrow>
        circleLoop b xc yc x y d =
          (case circleBody b xc yc x y d of
             None \<Rightarrow> Some None
           | Some (b2, x', y', d') \<Rightarrow>
               if x' \<le>s y' then circleLoop b2 xc yc x' y' d' else Some (Some b2)))
   \<and> (\<not> x \<le>s y \<longrightarrow> circleLoop b xc yc x y d = Some (Some b))"
proof (intro conjI impI)
  show "circleBody b xc yc x y d =
     (let x' = x + 1;
          y' = (if 0 <s d then y - 1 else y);
          d' = (if 0 <s d then d + 4 * (x' - y') + 10 else d + 4 * x' + 6)
      in do {
           b1 \<leftarrow> plot b (octants xc yc x y)
                   (PIXCOLOR (c_mod x 255) (c_mod y 255) (255 - c_mod x 255));
           b2 \<leftarrow> plot b1 (octants xc yc x' y')
                   (PIXCOLOR (c_mod x' 255) (c_mod y' 255) (255 - c_mod x' 255));
           Some (b2, x', y', d')
         })"
    by (rule circleBody_plot)
next
  assume g: "x \<le>s y"
  have stop: "circleLoop b2 xc yc x' y' d' = Some (Some b2)" if "\<not> x' \<le>s y'"
    for b2 x' y' d'
    using that by (subst circleLoop.simps) simp
  show "circleLoop b xc yc x y d =
          (case circleBody b xc yc x y d of
             None \<Rightarrow> Some None
           | Some (b2, x', y', d') \<Rightarrow>
               if x' \<le>s y' then circleLoop b2 xc yc x' y' d' else Some (Some b2))"
    using g
    by (subst circleLoop.simps) (auto simp add: stop split: option.splits)
next
  assume "\<not> x \<le>s y"
  then show "circleLoop b xc yc x y d = Some (Some b)"
    by (subst circleLoop.simps) simp
qed

theorem circleLoop_iteration_witness:
  "(0 :: cint) \<le>s 1
   \<and> circleBody (blankBitmap 3 3) 1 1 0 1 1 =
       Some ((blankBitmap 3 3)\<lparr>pixelBuffer :=
          [0, 16646145, 0, 16646145, 0, 16646145, 0, 16646145, 0]\<rparr>, 1, 0, 15)
   \<and> circleLoop (blankBitmap 3 3) 1 1 0 1 1 =
       Some (Some ((blankBitmap 3 3)\<lparr>pixelBuffer :=
          [0, 16646145, 0, 16646145, 0, 16646145, 0, 16646145, 0]\<rparr>))
   \<and> \<not> (1 :: cint) \<le>s 0
   \<and> circleLoop (blankBitmap 3 3) 1 1 1 0 15 = Some (Some (blankBitmap 3 3))"
proof -
  have le: "(0 :: cint) \<le>s 1" by (simp add: word_sle_eq)
  have nle: "\<not> (1 :: cint) \<le>s 0" by (simp add: word_sle_eq)
  note t = circleLoop_iteration [where b = "blankBitmap 3 3" and xc = 1 and yc = 1
      and x = 0 and y = 1 and d = 1]
  from conjunct1 [OF t]
  have body: "circleBody (blankBitmap 3 3) 1 1 0 1 1 =
       Some ((blankBitmap 3 3)\<lparr>pixelBuffer :=
          [0, 16646145, 0, 16646145, 0, 16646145, 0, 16646145, 0]\<rparr>, 1, 0, 15)"
    by (simp add: blank33 octants_def array_set_def GET_PIXEL_INDEX_def
        calloc_bitmapData_def Let_def word_sless_alt PIXCOLOR_def c_mod_def
        signed_modulo_int_def numeral_eq_Suc)
  from conjunct1 [OF conjunct2 [OF t]] le
  have loop: "circleLoop (blankBitmap 3 3) 1 1 0 1 1 =
       Some (Some ((blankBitmap 3 3)\<lparr>pixelBuffer :=
          [0, 16646145, 0, 16646145, 0, 16646145, 0, 16646145, 0]\<rparr>))"
    by (simp add: body nle)
  from conjunct2 [OF conjunct2 [OF circleLoop_iteration [where b = "blankBitmap 3 3"
      and xc = 1 and yc = 1 and x = 1 and y = 0 and d = 15]]] nle
  have stop: "circleLoop (blankBitmap 3 3) 1 1 1 0 15 = Some (Some (blankBitmap 3 3))"
    by simp
  from le body loop nle stop show ?thesis by simp
qed

text \<open>
  C5, as the code has it. With radius 0 the loop runs one pass and returns. The pass
  makes 16 writes: 8 at the centre with the colour \<open>0xFF0000\<close>, and then, for the local
  coordinates \<open>(1, -1)\<close> that the update leaves, 8 at the four diagonal neighbours of the
  centre with the value \<open>0xFFFFFF01\<close>. A write outside the pixel buffer ends the run.
\<close>

theorem circleBres_radius_0:
  "circleBres b xc yc 0 =
     Some (do {
       b1 \<leftarrow> plot b (replicate 8 (xc, yc)) 0xFF0000;
       plot b1 [(xc + 1, yc - 1), (xc - 1, yc - 1), (xc + 1, yc + 1), (xc - 1, yc + 1),
                (xc - 1, yc + 1), (xc + 1, yc + 1), (xc - 1, yc - 1), (xc + 1, yc - 1)]
         0xFFFFFF01
     })
   \<and> circleBres b xc yc 0 = Some (map_option fst (circleBody b xc yc 0 0 3))"
proof -
  have c0: "PIXCOLOR (c_mod 0 255) (c_mod 0 255) (255 - c_mod 0 255) = 0xFF0000"
    by (simp add: PIXCOLOR_def c_mod_def signed_modulo_int_def)
  have c1: "PIXCOLOR (c_mod 1 255) (c_mod (- 1) 255) (255 - c_mod 1 255) = 0xFFFFFF01"
    by (simp add: PIXCOLOR_def c_mod_def signed_modulo_int_def mask_eq_exp_minus_1)
  have o0: "octants xc yc 0 0 = replicate 8 (xc, yc)"
    by (simp add: octants_def numeral_eq_Suc)
  have o1: "octants xc yc 1 (- 1) =
      [(xc + 1, yc - 1), (xc - 1, yc - 1), (xc + 1, yc + 1), (xc - 1, yc + 1),
       (xc - 1, yc + 1), (xc + 1, yc + 1), (xc - 1, yc - 1), (xc + 1, yc - 1)]"
    by (simp add: octants_def)
  have body: "circleBody b xc yc 0 0 3 =
      do {
        b1 \<leftarrow> plot b (replicate 8 (xc, yc)) 0xFF0000;
        b2 \<leftarrow> plot b1 [(xc + 1, yc - 1), (xc - 1, yc - 1), (xc + 1, yc + 1), (xc - 1, yc + 1),
                (xc - 1, yc + 1), (xc + 1, yc + 1), (xc - 1, yc - 1), (xc + 1, yc - 1)]
               0xFFFFFF01;
        Some (b2, 1, - 1, 21)
      }"
    unfolding circleBody_plot by (simp add: Let_def word_sless_alt c0 c1 o0 o1)
  have exit: "\<not> (1 :: cint) \<le>s - 1" by (simp add: word_sle_eq)
  have run: "circleBres b xc yc 0 = Some (map_option fst (circleBody b xc yc 0 0 3))"
    unfolding circleBres_def
    apply (subst circleLoop.simps)
    apply (simp add: word_sle_eq body split: Option.bind_splits option.splits)
    apply (subst circleLoop.simps)
    apply (simp add: exit)
    done
  show ?thesis
    unfolding run by (simp add: body split: Option.bind_splits)
qed

text \<open>
  C5 as stated has the centre as the only point written. On the blank 11 by 11 bitmap
  with centre \<open>(5, 5)\<close> the run with radius 0 also changes the cell 50 of the point
  \<open>(6, 4)\<close>, which is not the cell 60 of the centre. On the blank 6 by 6 bitmap, which
  holds the centre \<open>(5, 5)\<close>, the run writes outside the pixel buffer.
\<close>

theorem circleBres_radius_0_counterexample:
  "map_option (map_option (\<lambda>b. pixelBuffer b ! 50)) (circleBres (blankBitmap 11 11) 5 5 0)
     = Some (Some 0xFFFFFF01)
   \<and> pixelBuffer (blankBitmap 11 11) ! 50 = 0
   \<and> nat (sint (GET_PIXEL_INDEX 6 4 (width (header (blankBitmap 11 11))))) = 50
   \<and> nat (sint (GET_PIXEL_INDEX 5 5 (width (header (blankBitmap 11 11))))) = 60
   \<and> array_get (pixelBuffer (blankBitmap 6 6))
        (GET_PIXEL_INDEX 5 5 (width (header (blankBitmap 6 6)))) = Some 0
   \<and> circleBres (blankBitmap 6 6) 5 5 0 = Some None"
proof -
  have a: "map_option (map_option (\<lambda>b. pixelBuffer b ! 50)) (circleBres (blankBitmap 11 11) 5 5 0)
     = Some (Some 0xFFFFFF01)"
    apply (simp add: circleBres_def)
    apply (subst circleLoop.simps)
    apply (simp add: blankBitmap_def size_t_nonneg circleBody_plot octants_def array_set_def
        GET_PIXEL_INDEX_def calloc_bitmapData_def Let_def word_sless_alt word_sle_eq)
    apply (subst circleLoop.simps)
    apply (simp add: word_sless_alt word_sle_eq PIXCOLOR_def c_mod_def signed_modulo_int_def
        mask_eq_exp_minus_1)
    done
  have b: "circleBres (blankBitmap 6 6) 5 5 0 = Some None"
    apply (simp add: circleBres_def)
    apply (subst circleLoop.simps)
    apply (simp add: blankBitmap_def size_t_nonneg circleBody_plot octants_def array_set_def
        GET_PIXEL_INDEX_def calloc_bitmapData_def Let_def word_sless_alt word_sle_eq)
    done
  show ?thesis
    unfolding a b
    by (simp add: blankBitmap_def size_t_nonneg GET_PIXEL_INDEX_def calloc_bitmapData_def
        array_get_def)
qed







section \<open>Lists cut into rows\<close>

lemma update3:
  assumes "i + 2 < length xs"
  shows "xs[i := a, i + 1 := b, i + 2 := c] = take i xs @ [a, b, c] @ drop (i + 3) xs"
proof (rule nth_equalityI)
  show "length (xs[i := a, i + 1 := b, i + 2 := c]) = length (take i xs @ [a, b, c] @ drop (i + 3) xs)"
    using assms by simp
next
  fix k
  assume "k < length (xs[i := a, i + 1 := b, i + 2 := c])"
  then have k: "k < length xs" by simp
  consider "k < i" | "k = i" | "k = i + 1" | "k = i + 2" | "i + 3 \<le> k" by linarith
  then show "xs[i := a, i + 1 := b, i + 2 := c] ! k = (take i xs @ [a, b, c] @ drop (i + 3) xs) ! k"
  proof cases
    case 1
    then show ?thesis using k by (simp add: nth_append)
  next
    case 2
    then show ?thesis using k assms by (simp add: nth_append)
  next
    case 3
    then show ?thesis using k assms by (simp add: nth_append)
  next
    case 4
    then show ?thesis using k assms by (simp add: nth_append)
  next
    case 5
    then have "k - i - 3 + (i + 3) = k" by simp
    with 5 show ?thesis using k assms by (simp add: nth_append nth_Cons' add.commute)
  qed
qed

lemma take_drop_app3:
  assumes "length a = n" and "length b = 3"
  shows "take (n + 3) (a @ b @ c) = a @ b" and "drop (n + 3 + j) (a @ b @ c) = drop j c"
  using assms by simp_all

lemma concat_length3:
  "(\<And>x. length (f x) = 3) \<Longrightarrow> length (concat (map f xs)) = 3 * length xs"
  by (induction xs) simp_all

lemma concat_nth3:
  assumes "\<And>k. length (f k) = 3" and "x < n" and "i < 3"
  shows "concat (map f [0..<n]) ! (3 * x + i) = f x ! i"
  using assms(2)
proof (induction n)
  case 0
  then show ?case by simp
next
  case (Suc n)
  have len: "length (concat (map f [0..<n])) = 3 * n"
    using concat_length3 [of f "[0..<n]"] assms(1) by simp
  show ?case
  proof (cases "x < n")
    case True
    then have "3 * x + i < 3 * n" using assms(3) by linarith
    with True Suc.IH len show ?thesis by (simp add: nth_append)
  next
    case False
    with Suc.prems have "x = n" by simp
    then show ?thesis using len assms(3) by (simp add: nth_append)
  qed
qed

lemma concat_chunk:
  assumes "\<And>r. r \<in> set rows \<Longrightarrow> length r = S" and "k < length rows"
  shows "take S (drop (k * S) (concat rows)) = rows ! k"
  using assms
proof (induction rows arbitrary: k)
  case Nil
  then show ?case by simp
next
  case (Cons r rows)
  have lr: "length r = S" using Cons.prems(1) by simp
  show ?case
  proof (cases k)
    case 0
    then show ?thesis using lr by simp
  next
    case (Suc j)
    then have "j < length rows" using Cons.prems(2) by simp
    with Cons.IH [of j] Cons.prems(1) have "take S (drop (j * S) (concat rows)) = rows ! j"
      by simp
    then show ?thesis using Suc lr by simp
  qed
qed

lemma concat_same_length:
  "(\<And>r. r \<in> set rows \<Longrightarrow> length r = S) \<Longrightarrow> length (concat rows) = S * length rows"
  by (induction rows) simp_all

section \<open>What the encoder writes\<close>

lemma pixelBytes_length: "length (pixelBytes bitmap x y) = 3"
  by (simp add: pixelBytes_def bytes_of_int_def)

lemma scanline_length: "length (scanline bitmap y) = 3 * nat (sint (width (header bitmap)))"
  by (simp add: scanline_def concat_length3 pixelBytes_length)

lemma scanline_cong:
  "pixelBuffer b' = pixelBuffer b \<Longrightarrow> width (header b') = width (header b)
     \<Longrightarrow> scanline b' y = scanline b y"
  by (simp add: scanline_def pixelBytes_def)

lemma bytes_of_header_length:
  "2 \<le> length (bfType h) \<Longrightarrow> length (bytes_of_header h) = 54"
  by (simp add: bytes_of_header_def bytes_of_int_def bytes_of_short_def)

lemma fwrite_accepting:
  "accepting out \<Longrightarrow> length buf = sz * n
     \<Longrightarrow> snd (fwrite buf sz n out) = out\<lparr>written := written out @ buf\<rparr>"
  by (simp add: fwrite_def)

text \<open>
  A run of the inner loop that returns has written, from column \<open>x\<close> on, the three low
  bytes of each cell at the positions \<open>3 * x\<close>, \<open>3 * x + 1\<close> and \<open>3 * x + 2\<close>, and has left
  the rest of the line buffer as it was.
\<close>

lemma fillLine_Some:
  assumes "fillLine bitmap y x lb = Some lb'"
    and "0 \<le> sint x" and "sint x \<le> sint (width (header bitmap))"
    and "3 * nat (sint x) \<le> length lb" and "length lb < 2147483648"
  shows "length lb' = length lb \<and> 3 * nat (sint (width (header bitmap))) \<le> length lb
    \<and> lb' = take (3 * nat (sint x)) lb
        @ concat (map (\<lambda>k. pixelBytes bitmap (of_nat k) y)
            [nat (sint x)..<nat (sint (width (header bitmap)))])
        @ drop (3 * nat (sint (width (header bitmap)))) lb"
  using assms
proof (induction "nat (sint (width (header bitmap)) - sint x)" arbitrary: x lb)
  case 0
  then have eq: "sint x = sint (width (header bitmap))" by simp
  then have "\<not> x <s width (header bitmap)" by (simp add: word_sless_alt)
  with "0.prems"(1) have "lb' = lb" by (simp add: fillLine.simps)
  with eq "0.prems" show ?case by simp
next
  case (Suc n)
  let ?w = "width (header bitmap)"
  let ?X = "nat (sint x)"
  from Suc.hyps(2) have lt: "sint x < sint ?w" by linarith
  then have guard: "x <s ?w" by (simp add: word_sless_alt)
  have x1: "sint (x + 1) = sint x + 1"
    using lt Suc.prems(2) sint_range32 [of ?w] by (simp add: sint_add32)
  from Suc.prems(1) guard obtain currentPixel lb1 lb2 lb3 where
    px: "array_get (pixelBuffer bitmap) (GET_PIXEL_INDEX x y ?w) = Some currentPixel"
    and s1: "array_set lb (x * 3) (bytes_of_int currentPixel ! 0) = Some lb1"
    and s2: "array_set lb1 (x * 3 + 1) (bytes_of_int currentPixel ! 1) = Some lb2"
    and s3: "array_set lb2 (x * 3 + 2) (bytes_of_int currentPixel ! 2) = Some lb3"
    and rest: "fillLine bitmap y (x + 1) lb3 = Some lb'"
    by (subst (asm) fillLine.simps) (auto simp add: Let_def split: Option.bind_splits)
  have m: "sint (x * 3) = 3 * sint x"
    using Suc.prems(2,4,5) by (simp add: sint_mult32)
  from s1 have b1: "3 * ?X < length lb" and l1: "lb1 = lb[3 * ?X := bytes_of_int currentPixel ! 0]"
    using Suc.prems(2) by (auto simp add: array_set_def m nat_mult_distrib split: if_splits)
  have m1: "sint (x * 3 + 1) = 3 * sint x + 1"
    using Suc.prems(2,5) b1 m by (simp add: sint_add32)
  from s2 have b2: "3 * ?X + 1 < length lb"
    and l2: "lb2 = lb1[3 * ?X + 1 := bytes_of_int currentPixel ! 1]"
    using Suc.prems(2) l1 by (auto simp add: array_set_def m1 nat_add_distrib nat_mult_distrib split: if_splits)
  have m2: "sint (x * 3 + 2) = 3 * sint x + 2"
    using Suc.prems(2,5) b2 m by (simp add: sint_add32)
  from s3 have b3: "3 * ?X + 2 < length lb"
    and l3: "lb3 = lb2[3 * ?X + 2 := bytes_of_int currentPixel ! 2]"
    using Suc.prems(2) l1 l2 by (auto simp add: array_set_def m2 nat_add_distrib nat_mult_distrib split: if_splits)
  have len3: "length lb3 = length lb" using l1 l2 l3 by simp
  have X1: "nat (sint (x + 1)) = Suc ?X" using x1 Suc.prems(2) by simp
  have n: "n = nat (sint ?w - sint (x + 1))" using Suc.hyps(2) x1 by simp
  have p2: "0 \<le> sint (x + 1)" using x1 Suc.prems(2) by simp
  have p3: "sint (x + 1) \<le> sint ?w" using x1 lt by simp
  have p4: "3 * nat (sint (x + 1)) \<le> length lb3" unfolding X1 len3 using b3 by simp
  have p5: "length lb3 < 2147483648" unfolding len3 by (rule Suc.prems(5))
  note IH = Suc.hyps(1) [OF n rest p2 p3 p4 p5]
  have lb3: "lb3 = take (3 * ?X) lb @ take 3 (bytes_of_int currentPixel) @ drop (3 * ?X + 3) lb"
    unfolding l3 l2 l1 using update3 [OF b3] by (simp add: bytes_of_int_def)
  have cp: "pixelBytes bitmap (of_nat ?X) y = take 3 (bytes_of_int currentPixel)"
    using px Suc.prems(2) by (auto simp add: pixelBytes_def array_get_def split: if_splits)
  have XW: "Suc ?X \<le> nat (sint ?w)" using lt Suc.prems(2) by linarith
  have ha: "length (take (3 * ?X) lb) = 3 * ?X" using b3 by simp
  have hb: "length (take 3 (bytes_of_int currentPixel)) = 3" by (simp add: bytes_of_int_def)
  have e: "3 * Suc ?X = 3 * ?X + 3" by simp
  have t: "take (3 * Suc ?X) lb3 = take (3 * ?X) lb @ pixelBytes bitmap (of_nat ?X) y"
    unfolding e lb3 cp by (rule take_drop_app3(1) [OF ha hb])
  have d: "drop (3 * nat (sint ?w)) lb3 = drop (3 * nat (sint ?w)) lb"
  proof -
    from XW obtain k where "nat (sint ?w) = Suc ?X + k"
      using le_Suc_ex by blast
    then have j: "3 * nat (sint ?w) = 3 * ?X + 3 + 3 * k" by simp
    have "drop (3 * ?X + 3 + 3 * k) lb3 = drop (3 * k) (drop (3 * ?X + 3) lb)"
      unfolding lb3 by (rule take_drop_app3(2) [OF ha hb])
    also have "\<dots> = drop (3 * ?X + 3 + 3 * k) lb"
      by (simp add: add.commute)
    finally show ?thesis unfolding j .
  qed
  have u: "[?X..<nat (sint ?w)] = ?X # [Suc ?X..<nat (sint ?w)]"
    by (rule upt_conv_Cons) (use XW in linarith)
  from IH [unfolded len3] have A: "length lb' = length lb"
    and B: "3 * nat (sint ?w) \<le> length lb"
    by blast+
  from IH [unfolded X1] have C: "lb' = take (3 * Suc ?X) lb3
        @ concat (map (\<lambda>k. pixelBytes bitmap (of_nat k) y) [Suc ?X..<nat (sint ?w)])
        @ drop (3 * nat (sint ?w)) lb3"
    by blast
  have "lb' = take (3 * ?X) lb
        @ concat (map (\<lambda>k. pixelBytes bitmap (of_nat k) y) [?X..<nat (sint ?w)])
        @ drop (3 * nat (sint ?w)) lb"
    unfolding C t d u by simp
  with A B show ?case by blast
qed

lemma writeRows_Some:
  assumes "writeRows out bitmap bpr y lb = Some out'"
    and "accepting out" and "- 1 \<le> sint y" and "0 \<le> sint (width (header bitmap))"
    and "length lb = nat (sint bpr)" and "0 \<le> sint bpr"
  shows "accepting out' \<and> (0 \<le> sint y \<longrightarrow> 3 * nat (sint (width (header bitmap))) \<le> length lb)
    \<and> written out' = written out
        @ concat (map (\<lambda>k. scanline bitmap (of_nat k)
                          @ drop (3 * nat (sint (width (header bitmap)))) lb)
            (rev [0..<nat (sint y + 1)]))"
  using assms
proof (induction "nat (sint y + 1)" arbitrary: out y lb)
  case 0
  then have "sint y = - 1" by simp
  then have "\<not> 0 \<le>s y" by (simp add: word_sle_eq)
  with "0.prems"(1) have "out' = out" by (simp add: writeRows.simps)
  with "0.prems" \<open>sint y = - 1\<close> show ?case by simp
next
  case (Suc n)
  let ?W = "nat (sint (width (header bitmap)))"
  from Suc.hyps(2) have y0: "0 \<le> sint y" by linarith
  then have guard: "0 \<le>s y" by (simp add: word_sle_eq)
  from Suc.prems(1) guard obtain lb1 where
    fl: "fillLine bitmap y 0 lb = Some lb1"
    and rest: "writeRows (snd (fwrite lb1 1 (size_t bpr) out)) bitmap bpr (y - 1) lb1 = Some out'"
    by (subst (asm) writeRows.simps) (auto simp add: Let_def split: Option.bind_splits)
  have lim: "length lb < 2147483648"
    using Suc.prems(5) sint_range32 [of bpr] by linarith
  have f: "length lb1 = length lb \<and> 3 * ?W \<le> length lb
    \<and> lb1 = take (3 * nat (sint (0 :: cint))) lb
        @ concat (map (\<lambda>k. pixelBytes bitmap (of_nat k) y) [nat (sint (0 :: cint))..<?W])
        @ drop (3 * ?W) lb"
    by (rule fillLine_Some [OF fl]) (use Suc.prems(4) lim in simp_all)
  from f have len1: "length lb1 = length lb" and W3: "3 * ?W \<le> length lb"
    by blast+
  from f have "lb1 = take (3 * nat (sint (0 :: cint))) lb
        @ concat (map (\<lambda>k. pixelBytes bitmap (of_nat k) y) [nat (sint (0 :: cint))..<?W])
        @ drop (3 * ?W) lb"
    by blast
  then have lb1: "lb1 = scanline bitmap y @ drop (3 * ?W) lb"
    by (simp add: scanline_def)
  have sz: "size_t bpr = nat (sint bpr)"
    using Suc.prems(6) by (simp add: size_t_nonneg)
  have out2: "snd (fwrite lb1 1 (size_t bpr) out) = out\<lparr>written := written out @ lb1\<rparr>"
    by (rule fwrite_accepting [OF Suc.prems(2)]) (simp add: sz len1 Suc.prems(5))
  have y1: "sint (y - 1) = sint y - 1"
    using y0 sint_range32 [of y] by (simp add: sint_sub32)
  have n: "n = nat (sint (y - 1) + 1)" using Suc.hyps(2) y1 by simp
  have IH: "accepting out'
    \<and> (0 \<le> sint (y - 1) \<longrightarrow> 3 * ?W \<le> length lb1)
    \<and> written out' = written (out\<lparr>written := written out @ lb1\<rparr>)
        @ concat (map (\<lambda>k. scanline bitmap (of_nat k) @ drop (3 * ?W) lb1)
            (rev [0..<nat (sint (y - 1) + 1)]))"
    by (rule Suc.hyps(1) [OF n rest [unfolded out2]])
      (use Suc.prems(2,4,5,6) y1 y0 len1 in simp_all)
  have dr: "drop (3 * ?W) lb1 = drop (3 * ?W) lb"
    unfolding lb1 by (simp add: scanline_length)
  have Y: "nat (sint y + 1) = Suc (nat (sint y))" using y0 by simp
  have Y1: "nat (sint (y - 1) + 1) = nat (sint y)" using y1 by simp
  have yy: "(of_nat (nat (sint y)) :: cint) = y" using y0 by simp
  from IH have "accepting out'" by blast
  moreover from IH have "written out' = written out @ lb1
        @ concat (map (\<lambda>k. scanline bitmap (of_nat k) @ drop (3 * ?W) lb)
            (rev [0..<nat (sint y)]))"
    unfolding dr Y1 by simp
  then have "written out' = written out
        @ concat (map (\<lambda>k. scanline bitmap (of_nat k) @ drop (3 * ?W) lb)
            (rev [0..<nat (sint y + 1)]))"
    unfolding Y lb1 by (simp add: yy)
  ultimately show ?case using W3 by blast
qed

lemma writeBitmapData_Some:
  assumes "writeBitmapData stack out bitmap = Some (st, out', bitmap')"
    and "accepting out" and "0 \<le> sint (width (header bitmap))"
    and "0 < sint (height (header bitmap))"
  shows "st = 0"
    and "pixelBuffer bitmap' = pixelBuffer bitmap"
    and "width (header bitmap') = width (header bitmap)"
    and "height (header bitmap') = height (header bitmap)"
    and "imageSize (header bitmap') =
           BMP_BYTES_PER_LINE (width (header bitmap)) BITCOUNT * height (header bitmap)"
    and "fileSize (header bitmap') = imageSize (header bitmap') + 54"
    and "imageOffset (header bitmap') = 54"
    and "length (bytes_of_header (header bitmap')) = 54"
    and "0 \<le> sint (BMP_BYTES_PER_LINE (width (header bitmap)) BITCOUNT)"
    and "3 * nat (sint (width (header bitmap)))
           \<le> nat (sint (BMP_BYTES_PER_LINE (width (header bitmap)) BITCOUNT))"
    and "accepting out'"
    and "written out' = written out @ bytes_of_header (header bitmap')
        @ concat (map (\<lambda>k. scanline bitmap (of_nat k)
              @ map stack [3 * nat (sint (width (header bitmap)))..<
                   nat (sint (BMP_BYTES_PER_LINE (width (header bitmap)) BITCOUNT))])
            (rev [0..<nat (sint (height (header bitmap)))]))"
    and "take 2 (bfType (header bitmap')) = [0x42, 0x4D]"
proof -
  let ?bpr = "BMP_BYTES_PER_LINE (width (header bitmap)) BITCOUNT"
  let ?W = "nat (sint (width (header bitmap)))"
  let ?h' = "(header bitmap)\<lparr>bfType := strncpy (bfType (header bitmap)) [0x42, 0x4D] 2,
      headerSize := 40, imageOffset := 54, planes := 1, bitCount := ucast BITCOUNT,
      reserved := 0, colorsImportant := 0, colorsUsed := 0,
      imageSize := ?bpr * height (header bitmap),
      fileSize := ?bpr * height (header bitmap) + 54,
      xPixelsPerMeter := 0, yPixelsPerMeter := 0\<rparr>"
  let ?b' = "bitmap\<lparr>header := ?h'\<rparr>"
  let ?out1 = "snd (fwrite (bytes_of_header ?h') sizeof_bitmapHeader 1 out)"
  from assms(1) have pos: "0 \<le>s ?bpr"
    by (auto simp add: writeBitmapData_def Let_def split: if_splits)
  then have S0: "0 \<le> sint ?bpr" by (simp add: word_sle_eq)
  from assms(1) pos obtain out2 where
    rows: "writeRows ?out1 ?b' ?bpr (height (header bitmap) - 1)
             (map stack [0..<nat (sint ?bpr)]) = Some out2"
    and res: "st = 0" "out' = out2" "bitmap' = ?b'"
    by (auto simp add: writeBitmapData_def Let_def sizeof_bitmapHeader_def
        split: if_splits Option.bind_splits)
  have hl: "length (bytes_of_header ?h') = 54"
    by (rule bytes_of_header_length) (simp add: strncpy_def)
  have out1: "?out1 = out\<lparr>written := written out @ bytes_of_header ?h'\<rparr>"
    by (rule fwrite_accepting [OF assms(2)]) (simp add: hl sizeof_bitmapHeader_def)
  have h1: "sint (height (header bitmap) - 1) = sint (height (header bitmap)) - 1"
    using assms(4) sint_range32 [of "height (header bitmap)"] by (simp add: sint_sub32)
  have q1: "accepting (out\<lparr>written := written out @ bytes_of_header ?h'\<rparr>)"
    using assms(2) by simp
  have q2: "- 1 \<le> sint (height (header bitmap) - 1)"
    using h1 assms(4) by simp
  have q3: "0 \<le> sint (width (header ?b'))"
    using assms(3) by simp
  have q4: "length (map stack [0..<nat (sint ?bpr)]) = nat (sint ?bpr)"
    by simp
  note r0 = writeRows_Some [OF rows [unfolded out1] q1 q2 q3 q4 S0]
  have wb: "width (header ?b') = width (header bitmap)" by simp
  note r = r0 [unfolded wb]
  have sc: "\<And>y. scanline ?b' y = scanline bitmap y"
    by (rule scanline_cong) simp_all
  have dr: "drop (3 * ?W) (map stack [0..<nat (sint ?bpr)]) = map stack [3 * ?W..<nat (sint ?bpr)]"
    by (simp add: drop_map)
  have H: "nat (sint (height (header bitmap) - 1) + 1) = nat (sint (height (header bitmap)))"
    using h1 assms(4) by simp
  show "st = 0" by (rule res)
  show "pixelBuffer bitmap' = pixelBuffer bitmap" unfolding res by simp
  show "width (header bitmap') = width (header bitmap)" unfolding res by simp
  show "height (header bitmap') = height (header bitmap)" unfolding res by simp
  show "imageSize (header bitmap') = ?bpr * height (header bitmap)" unfolding res by simp
  show "fileSize (header bitmap') = imageSize (header bitmap') + 54" unfolding res by simp
  show "imageOffset (header bitmap') = 54" unfolding res by simp
  show "length (bytes_of_header (header bitmap')) = 54" unfolding res using hl by simp
  show "0 \<le> sint ?bpr" by (rule S0)
  show "3 * ?W \<le> nat (sint ?bpr)" using r h1 assms(4) by simp
  show "accepting out'" unfolding res using r by blast
  from r have "written out2 = written out @ bytes_of_header ?h'
        @ concat (map (\<lambda>k. scanline bitmap (of_nat k) @ map stack [3 * ?W..<nat (sint ?bpr)])
            (rev [0..<nat (sint (height (header bitmap)))]))"
    by (simp add: sc dr H)
  then show "written out' = written out @ bytes_of_header (header bitmap')
        @ concat (map (\<lambda>k. scanline bitmap (of_nat k) @ map stack [3 * ?W..<nat (sint ?bpr)])
            (rev [0..<nat (sint (height (header bitmap)))]))"
    unfolding res by simp
  show "take 2 (bfType (header bitmap')) = [0x42, 0x4D]"
    unfolding res by (simp add: strncpy_def)
qed

text \<open>
  In a run that returns, every cell that was read lies inside the pixel buffer.
\<close>

lemma fillLine_reads:
  assumes "fillLine bitmap y x lb = Some lb'" and "0 \<le> sint x"
    and "nat (sint x) \<le> k" and "k < nat (sint (width (header bitmap)))"
  shows "array_get (pixelBuffer bitmap)
           (GET_PIXEL_INDEX (of_nat k) y (width (header bitmap))) \<noteq> None"
  using assms(1-3)
proof (induction "nat (sint (width (header bitmap)) - sint x)" arbitrary: x lb)
  case 0
  with assms(4) show ?case by simp
next
  case (Suc n)
  let ?w = "width (header bitmap)"
  from Suc.hyps(2) have lt: "sint x < sint ?w" by linarith
  then have guard: "x <s ?w" by (simp add: word_sless_alt)
  have x1: "sint (x + 1) = sint x + 1"
    using lt Suc.prems(2) sint_range32 [of ?w] by (simp add: sint_add32)
  from Suc.prems(1) guard obtain currentPixel lb3 where
    px: "array_get (pixelBuffer bitmap) (GET_PIXEL_INDEX x y ?w) = Some currentPixel"
    and rest: "fillLine bitmap y (x + 1) lb3 = Some lb'"
    by (subst (asm) fillLine.simps) (auto simp add: Let_def split: Option.bind_splits)
  show ?case
  proof (cases "k = nat (sint x)")
    case True
    then have "(of_nat k :: cint) = x" using Suc.prems(2) by simp
    with px show ?thesis by simp
  next
    case False
    have n: "n = nat (sint ?w - sint (x + 1))" using Suc.hyps(2) x1 by simp
    show ?thesis
      by (rule Suc.hyps(1) [OF n rest]) (use False Suc.prems(2,3) x1 in simp_all)
  qed
qed

lemma writeRows_reads:
  assumes "writeRows out bitmap bpr y lb = Some out'" and "- 1 \<le> sint y"
    and "j < nat (sint y + 1)" and "k < nat (sint (width (header bitmap)))"
  shows "array_get (pixelBuffer bitmap)
           (GET_PIXEL_INDEX (of_nat k) (of_nat j) (width (header bitmap))) \<noteq> None"
  using assms(1-3)
proof (induction "nat (sint y + 1)" arbitrary: out y lb)
  case 0
  then show ?case by simp
next
  case (Suc n)
  from Suc.hyps(2) have y0: "0 \<le> sint y" by linarith
  then have guard: "0 \<le>s y" by (simp add: word_sle_eq)
  from Suc.prems(1) guard obtain lb1 where
    fl: "fillLine bitmap y 0 lb = Some lb1"
    and rest: "writeRows (snd (fwrite lb1 1 (size_t bpr) out)) bitmap bpr (y - 1) lb1 = Some out'"
    by (subst (asm) writeRows.simps) (auto simp add: Let_def split: Option.bind_splits)
  have y1: "sint (y - 1) = sint y - 1"
    using y0 sint_range32 [of y] by (simp add: sint_sub32)
  show ?case
  proof (cases "j = nat (sint y)")
    case True
    then have "(of_nat j :: cint) = y" using y0 by simp
    with fillLine_reads [OF fl _ _ assms(4)] show ?thesis by simp
  next
    case False
    have n: "n = nat (sint (y - 1) + 1)" using Suc.hyps(2) y1 by simp
    show ?thesis
      by (rule Suc.hyps(1) [OF n rest]) (use False Suc.prems(3) y1 y0 in simp_all)
  qed
qed

lemma writeBitmapData_reads:
  assumes "writeBitmapData stack out bitmap = Some (st, out', bitmap')"
    and "0 < sint (height (header bitmap))"
    and "j < nat (sint (height (header bitmap)))" and "k < nat (sint (width (header bitmap)))"
  shows "array_get (pixelBuffer bitmap)
           (GET_PIXEL_INDEX (of_nat k) (of_nat j) (width (header bitmap))) \<noteq> None"
proof -
  let ?bpr = "BMP_BYTES_PER_LINE (width (header bitmap)) BITCOUNT"
  from assms(1) obtain out1 b1 out2 where
    rows: "writeRows out1 b1 ?bpr (height (header bitmap) - 1)
             (map stack [0..<nat (sint ?bpr)]) = Some out2"
    and b1: "pixelBuffer b1 = pixelBuffer bitmap" "width (header b1) = width (header bitmap)"
    by (auto simp add: writeBitmapData_def Let_def split: if_splits Option.bind_splits)
  have h1: "sint (height (header bitmap) - 1) = sint (height (header bitmap)) - 1"
    using assms(2) sint_range32 [of "height (header bitmap)"] by (simp add: sint_sub32)
  have "array_get (pixelBuffer b1)
           (GET_PIXEL_INDEX (of_nat k) (of_nat j) (width (header b1))) \<noteq> None"
    by (rule writeRows_reads [OF rows]) (use h1 assms(2,3,4) b1 in simp_all)
  then show ?thesis by (simp add: b1)
qed

text \<open>
  The encoder returns on every bitmap whose width is between 1 and 89478484, whose
  height is positive and whose \<open>width * height\<close> cells are allocated and fewer than
  \<open>2^31\<close>.
\<close>

lemma fillLine_returns:
  assumes "0 \<le> sint x" and "sint x \<le> sint (width (header bitmap))"
    and "3 * nat (sint (width (header bitmap))) \<le> length lb" and "length lb < 2147483648"
    and "\<And>k. k < nat (sint (width (header bitmap))) \<Longrightarrow>
           array_get (pixelBuffer bitmap)
             (GET_PIXEL_INDEX (of_nat k) y (width (header bitmap))) \<noteq> None"
  shows "\<exists>lb'. fillLine bitmap y x lb = Some lb'"
  using assms(1-4)
proof (induction "nat (sint (width (header bitmap)) - sint x)" arbitrary: x lb)
  case 0
  then have "\<not> x <s width (header bitmap)" by (simp add: word_sless_alt)
  then show ?case by (simp add: fillLine.simps)
next
  case (Suc n)
  let ?w = "width (header bitmap)"
  let ?X = "nat (sint x)"
  from Suc.hyps(2) have lt: "sint x < sint ?w" by linarith
  then have guard: "x <s ?w" by (simp add: word_sless_alt)
  have x1: "sint (x + 1) = sint x + 1"
    using lt Suc.prems(1) sint_range32 [of ?w] by (simp add: sint_add32)
  have XW: "?X < nat (sint ?w)" using lt Suc.prems(1) by linarith
  have xx: "(of_nat ?X :: cint) = x" using Suc.prems(1) by simp
  from assms(5) [OF XW] obtain currentPixel where
    px: "array_get (pixelBuffer bitmap) (GET_PIXEL_INDEX x y ?w) = Some currentPixel"
    unfolding xx by blast
  have b: "3 * ?X + 2 < length lb" using XW Suc.prems(3) by linarith
  have m: "sint (x * 3) = 3 * sint x"
    using Suc.prems(1,4) b by (simp add: sint_mult32)
  have m1: "sint (x * 3 + 1) = 3 * sint x + 1"
    using Suc.prems(1,4) b m by (simp add: sint_add32)
  have m2: "sint (x * 3 + 2) = 3 * sint x + 2"
    using Suc.prems(1,4) b m by (simp add: sint_add32)
  let ?lb3 = "lb[nat (sint (x * 3)) := bytes_of_int currentPixel ! 0,
                 nat (sint (x * 3 + 1)) := bytes_of_int currentPixel ! 1,
                 nat (sint (x * 3 + 2)) := bytes_of_int currentPixel ! 2]"
  have n: "n = nat (sint ?w - sint (x + 1))" using Suc.hyps(2) x1 by simp
  have "\<exists>lb'. fillLine bitmap y (x + 1) ?lb3 = Some lb'"
    by (rule Suc.hyps(1) [OF n]) (use x1 lt Suc.prems in simp_all)
  then obtain lb' where rest: "fillLine bitmap y (x + 1) ?lb3 = Some lb'" by blast
  have n0: "nat (3 * sint x) = 3 * ?X" and n1: "nat (3 * sint x + 1) = 3 * ?X + 1"
    and n2: "nat (3 * sint x + 2) = 3 * ?X + 2"
    using Suc.prems(1) by linarith+
  have "fillLine bitmap y x lb = Some lb'"
    apply (subst fillLine.simps)
    using guard px rest b Suc.prems(1)
    apply (simp add: Let_def array_set_def m m1 m2 n0 n1 n2)
    done
  then show ?case by blast
qed

lemma writeRows_returns:
  assumes "- 1 \<le> sint y" and "0 \<le> sint (width (header bitmap))"
    and "3 * nat (sint (width (header bitmap))) \<le> length lb" and "length lb < 2147483648"
    and "\<And>k j. k < nat (sint (width (header bitmap))) \<Longrightarrow> j < nat (sint y + 1) \<Longrightarrow>
           array_get (pixelBuffer bitmap)
             (GET_PIXEL_INDEX (of_nat k) (of_nat j) (width (header bitmap))) \<noteq> None"
  shows "\<exists>out'. writeRows out bitmap bpr y lb = Some out'"
  using assms
proof (induction "nat (sint y + 1)" arbitrary: out y lb)
  case 0
  then have "\<not> 0 \<le>s y" by (simp add: word_sle_eq)
  then show ?case by (simp add: writeRows.simps)
next
  case (Suc n)
  from Suc.hyps(2) have y0: "0 \<le> sint y" by linarith
  then have guard: "0 \<le>s y" by (simp add: word_sle_eq)
  have yy: "(of_nat (nat (sint y)) :: cint) = y" using y0 by simp
  have "\<exists>lb1. fillLine bitmap y 0 lb = Some lb1"
  proof (rule fillLine_returns)
    fix k
    assume "k < nat (sint (width (header bitmap)))"
    from Suc.prems(5) [OF this, of "nat (sint y)"] y0
    show "array_get (pixelBuffer bitmap)
        (GET_PIXEL_INDEX (of_nat k) y (width (header bitmap))) \<noteq> None"
      by (simp add: yy)
  qed (use Suc.prems in simp_all)
  then obtain lb1 where fl: "fillLine bitmap y 0 lb = Some lb1" by blast
  have len1: "length lb1 = length lb"
    by (rule conjunct1 [OF fillLine_Some [OF fl]]) (use Suc.prems in simp_all)
  have y1: "sint (y - 1) = sint y - 1"
    using y0 sint_range32 [of y] by (simp add: sint_sub32)
  have n: "n = nat (sint (y - 1) + 1)" using Suc.hyps(2) y1 by simp
  have "\<exists>out'. writeRows (snd (fwrite lb1 1 (size_t bpr) out)) bitmap bpr (y - 1) lb1 = Some out'"
  proof (rule Suc.hyps(1) [OF n])
    fix k j
    assume "k < nat (sint (width (header bitmap)))" and "j < nat (sint (y - 1) + 1)"
    then show "array_get (pixelBuffer bitmap)
        (GET_PIXEL_INDEX (of_nat k) (of_nat j) (width (header bitmap))) \<noteq> None"
      using Suc.prems(5) [of k j] y1 y0 by simp
  qed (use Suc.prems y1 y0 len1 in simp_all)
  then obtain out' where
    "writeRows (snd (fwrite lb1 1 (size_t bpr) out)) bitmap bpr (y - 1) lb1 = Some out'"
    by blast
  with guard fl have "writeRows out bitmap bpr y lb = Some out'"
    by (subst writeRows.simps) (simp add: Let_def)
  then show ?case by blast
qed

lemma writeBitmapData_returns:
  assumes "0 < sint (width (header bitmap))" and "sint (width (header bitmap)) \<le> 89478484"
    and "0 < sint (height (header bitmap))"
    and "sint (width (header bitmap)) * sint (height (header bitmap)) < 2147483648"
    and "nat (sint (width (header bitmap))) * nat (sint (height (header bitmap)))
           \<le> length (pixelBuffer bitmap)"
  shows "\<exists>out' bitmap'. writeBitmapData stack out bitmap = Some (0, out', bitmap')"
proof -
  let ?w = "width (header bitmap)"
  let ?h = "height (header bitmap)"
  let ?bpr = "BMP_BYTES_PER_LINE ?w BITCOUNT"
  let ?h' = "(header bitmap)\<lparr>bfType := strncpy (bfType (header bitmap)) [0x42, 0x4D] 2,
      headerSize := 40, imageOffset := 54, planes := 1, bitCount := ucast BITCOUNT,
      reserved := 0, colorsImportant := 0, colorsUsed := 0,
      imageSize := ?bpr * ?h, fileSize := ?bpr * ?h + 54,
      xPixelsPerMeter := 0, yPixelsPerMeter := 0\<rparr>"
  let ?b' = "bitmap\<lparr>header := ?h'\<rparr>"
  let ?out1 = "snd (fwrite (bytes_of_header ?h') sizeof_bitmapHeader 1 out)"
  have S: "sint ?bpr = (sint ?w * 24 + 31) div 32 * 4"
    using assms(1,2) by (simp add: BITCOUNT_def stride_sint)
  have S3: "sint ?w * 3 \<le> sint ?bpr" unfolding S by linarith
  have S0: "0 < sint ?bpr" using S3 assms(1) by linarith
  have h1: "sint (?h - 1) = sint ?h - 1"
    using assms(3) sint_range32 [of ?h] by (simp add: sint_sub32)
  have reads: "array_get (pixelBuffer ?b')
        (GET_PIXEL_INDEX (of_nat k) (of_nat j) (width (header ?b'))) \<noteq> None"
    if k: "k < nat (sint (width (header ?b')))" and j: "j < nat (sint (?h - 1) + 1)" for k j
  proof -
    from k have k': "int k < sint ?w" by simp
    from j h1 have j': "int j < sint ?h" by simp
    have "int j * sint ?w \<le> (sint ?h - 1) * sint ?w"
      using j' assms(1) by (intro mult_right_mono) simp_all
    then have lt: "int k + int j * sint ?w < sint ?w * sint ?h"
      using k' by (simp add: algebra_simps)
    have sk: "sint (of_nat k :: cint) = int k"
      using k' sint_range32 [of ?w] sint_of_int32 [of "int k"] by simp
    have sj: "sint (of_nat j :: cint) = int j"
      using j' sint_range32 [of ?h] sint_of_int32 [of "int j"] by simp
    have jw0: "0 \<le> int j * sint ?w" using assms(1) by simp
    have jw: "sint (of_nat j * ?w :: cint) = int j * sint ?w"
      using lt assms(4) jw0 by (simp add: sint_mult32 sj)
    have idx: "sint (of_nat k + of_nat j * ?w :: cint) = int k + int j * sint ?w"
      using lt assms(4) jw0 by (simp add: sint_add32 sk jw)
    have "nat (int k + int j * sint ?w) < nat (sint ?w * sint ?h)"
      using lt jw0 by simp
    also have "\<dots> \<le> length (pixelBuffer bitmap)"
      using assms(1,3,5) by (simp add: nat_mult_distrib)
    finally show ?thesis
      using jw0 by (simp add: array_get_def GET_PIXEL_INDEX_def idx)
  qed
  have "\<exists>out2. writeRows ?out1 ?b' ?bpr (?h - 1) (map stack [0..<nat (sint ?bpr)]) = Some out2"
  proof (rule writeRows_returns)
    show "3 * nat (sint (width (header ?b'))) \<le> length (map stack [0..<nat (sint ?bpr)])"
      using S3 assms(1) by simp
    show "length (map stack [0..<nat (sint ?bpr)]) < 2147483648"
      using sint_range32 [of ?bpr] S0 by simp
  qed (use h1 assms(1,3) reads in simp_all)
  then obtain out2 where
    "writeRows ?out1 ?b' ?bpr (?h - 1) (map stack [0..<nat (sint ?bpr)]) = Some out2"
    by blast
  then have "writeBitmapData stack out bitmap = Some (0, out2, ?b')"
    using S0 by (simp add: writeBitmapData_def Let_def word_sle_eq sizeof_bitmapHeader_def)
  then show ?thesis by blast
qed

text \<open>
  It also returns on every bitmap without columns, when the row stride is not negative:
  no cell is read, and each row writes the line buffer as it is.
\<close>

lemma writeRows_returns_no_columns:
  assumes "sint (width (header bitmap)) \<le> 0"
  shows "\<exists>out'. writeRows out bitmap bpr y lb = Some out'"
proof (induction "nat (sint y + 1)" arbitrary: out y)
  case 0
  show ?case
  proof (cases "0 \<le>s y")
    case False
    then show ?thesis by (simp add: writeRows.simps)
  next
    case True
    then have "0 \<le> sint y" by (simp add: word_sle_eq)
    with 0 show ?thesis by simp
  qed
next
  case (Suc n)
  from Suc.hyps(2) have y0: "0 \<le> sint y" by linarith
  then have guard: "0 \<le>s y" by (simp add: word_sle_eq)
  have "\<not> 0 <s width (header bitmap)"
    using assms by (simp add: word_sless_alt)
  then have fl: "fillLine bitmap y 0 lb = Some lb"
    by (simp add: fillLine.simps)
  have y1: "sint (y - 1) = sint y - 1"
    using y0 sint_range32 [of y] by (simp add: sint_sub32)
  have n: "n = nat (sint (y - 1) + 1)" using Suc.hyps(2) y1 by simp
  from Suc.hyps(1) [OF n] obtain out' where
    "writeRows (snd (fwrite lb 1 (size_t bpr) out)) bitmap bpr (y - 1) lb = Some out'"
    by blast
  with guard fl have "writeRows out bitmap bpr y lb = Some out'"
    by (subst writeRows.simps) (simp add: Let_def)
  then show ?case by blast
qed

lemma writeBitmapData_returns_no_columns:
  assumes "sint (width (header bitmap)) \<le> 0"
    and "0 \<le> sint (BMP_BYTES_PER_LINE (width (header bitmap)) BITCOUNT)"
  shows "\<exists>out' bitmap'. writeBitmapData stack out bitmap = Some (0, out', bitmap')"
proof -
  let ?bpr = "BMP_BYTES_PER_LINE (width (header bitmap)) BITCOUNT"
  let ?h' = "(header bitmap)\<lparr>bfType := strncpy (bfType (header bitmap)) [0x42, 0x4D] 2,
      headerSize := 40, imageOffset := 54, planes := 1, bitCount := ucast BITCOUNT,
      reserved := 0, colorsImportant := 0, colorsUsed := 0,
      imageSize := ?bpr * height (header bitmap),
      fileSize := ?bpr * height (header bitmap) + 54,
      xPixelsPerMeter := 0, yPixelsPerMeter := 0\<rparr>"
  let ?b' = "bitmap\<lparr>header := ?h'\<rparr>"
  let ?out1 = "snd (fwrite (bytes_of_header ?h') sizeof_bitmapHeader 1 out)"
  have w: "sint (width (header ?b')) \<le> 0" using assms(1) by simp
  from writeRows_returns_no_columns [OF w] obtain out2 where
    "writeRows ?out1 ?b' ?bpr (height (header bitmap) - 1) (map stack [0..<nat (sint ?bpr)])
       = Some out2"
    by blast
  then have "writeBitmapData stack out bitmap = Some (0, out2, ?b')"
    using assms(2) by (simp add: writeBitmapData_def Let_def word_sle_eq sizeof_bitmapHeader_def)
  then show ?thesis by blast
qed

lemmas encoder_eval =
  writeBitmapData_def Let_def BMP_BYTES_PER_LINE_def BITCOUNT_def c_div_def
  signed_divide_int_def sizeof_bitmapHeader_def strncpy_def fwrite_def
  writeRows.simps fillLine.simps array_get_def array_set_def GET_PIXEL_INDEX_def
  word_sless_alt word_sle_eq size_t_nonneg blankBitmap_def calloc_bitmapData_def
  bytes_of_int_def drop_bit_eq_div

text \<open>
  C9, as the code has it. For every bitmap of positive width and height, on a stream that
  takes the writes: the encoder returns when the width is at most 89478484 and the
  \<open>width * height\<close> cells, fewer than \<open>2^31\<close>, are allocated; and in every run that
  returns, after the 54 header bytes the rows follow in the order \<open>height - 1\<close> down to 0,
  each one the pixel bytes of the row and then the rest of the line buffer, and in the
  pixel bytes of a row the bytes at \<open>3 * x\<close>, \<open>3 * x + 1\<close> and \<open>3 * x + 2\<close> are the three
  lowest-order bytes, in order, of the cell of column \<open>x\<close>, which lies inside the pixel
  buffer.
\<close>

theorem writeBitmapData_scanlines:
  assumes "accepting out"
    and "0 < sint (width (header bitmap))" and "0 < sint (height (header bitmap))"
  shows "(sint (width (header bitmap)) \<le> 89478484
          \<and> sint (width (header bitmap)) * sint (height (header bitmap)) < 2147483648
          \<and> nat (sint (width (header bitmap))) * nat (sint (height (header bitmap)))
               \<le> length (pixelBuffer bitmap) \<longrightarrow>
         (\<exists>out' bitmap'. writeBitmapData stack out bitmap = Some (0, out', bitmap')))
    \<and> (\<forall>st out' bitmap'. writeBitmapData stack out bitmap = Some (st, out', bitmap') \<longrightarrow>
         written out' = written out @ bytes_of_header (header bitmap')
           @ concat (map (\<lambda>y. scanline bitmap (of_nat y)
                 @ map stack [3 * nat (sint (width (header bitmap)))..<
                      nat (sint (BMP_BYTES_PER_LINE (width (header bitmap)) BITCOUNT))])
               (rev [0..<nat (sint (height (header bitmap)))]))
         \<and> (\<forall>y x i. y < nat (sint (height (header bitmap)))
               \<and> x < nat (sint (width (header bitmap))) \<and> i < 3 \<longrightarrow>
             (\<exists>c. array_get (pixelBuffer bitmap)
                    (GET_PIXEL_INDEX (of_nat x) (of_nat y) (width (header bitmap))) = Some c
                \<and> scanline bitmap (of_nat y) ! (3 * x + i) = bytes_of_int c ! i)))"
proof (intro conjI allI impI)
  assume "sint (width (header bitmap)) \<le> 89478484
          \<and> sint (width (header bitmap)) * sint (height (header bitmap)) < 2147483648
          \<and> nat (sint (width (header bitmap))) * nat (sint (height (header bitmap)))
               \<le> length (pixelBuffer bitmap)"
  with assms(2,3) show "\<exists>out' bitmap'. writeBitmapData stack out bitmap = Some (0, out', bitmap')"
    using writeBitmapData_returns [of bitmap stack out] by blast
next
  fix st out' bitmap'
  assume run: "writeBitmapData stack out bitmap = Some (st, out', bitmap')"
  show "written out' = written out @ bytes_of_header (header bitmap')
        @ concat (map (\<lambda>y. scanline bitmap (of_nat y)
              @ map stack [3 * nat (sint (width (header bitmap)))..<
                   nat (sint (BMP_BYTES_PER_LINE (width (header bitmap)) BITCOUNT))])
            (rev [0..<nat (sint (height (header bitmap)))]))"
    by (rule writeBitmapData_Some(12) [OF run assms(1) _ assms(3)]) (use assms(2) in simp)
next
  fix st :: cint and out' :: FILE and bitmap' :: bitmapData and y x i :: nat
  assume run: "writeBitmapData stack out bitmap = Some (st, out', bitmap')"
  assume a: "y < nat (sint (height (header bitmap)))
    \<and> x < nat (sint (width (header bitmap))) \<and> i < 3"
  let ?idx = "GET_PIXEL_INDEX (of_nat x) (of_nat y) (width (header bitmap))"
  from a writeBitmapData_reads [OF run assms(3), of y x]
  obtain c where c: "array_get (pixelBuffer bitmap) ?idx = Some c"
    by auto
  then have cell: "pixelBuffer bitmap ! nat (sint ?idx) = c"
    by (simp add: array_get_def split: if_splits)
  have "scanline bitmap (of_nat y) ! (3 * x + i) = pixelBytes bitmap (of_nat x) (of_nat y) ! i"
    unfolding scanline_def
    by (rule concat_nth3) (use a in \<open>simp_all add: pixelBytes_length\<close>)
  also have "\<dots> = bytes_of_int c ! i"
    using a by (simp add: pixelBytes_def cell)
  finally have "scanline bitmap (of_nat y) ! (3 * x + i) = bytes_of_int c ! i" .
  with c show "\<exists>c. array_get (pixelBuffer bitmap) ?idx = Some c
      \<and> scanline bitmap (of_nat y) ! (3 * x + i) = bytes_of_int c ! i"
    by blast
qed

theorem writeBitmapData_scanlines_witness:
  "accepting \<lparr>written = [], accepting = True\<rparr>
   \<and> 0 < sint (width (header ((blankBitmap 2 2)\<lparr>pixelBuffer := [0x010203, 0x040506, 0x070809, 0x0A0B0C]\<rparr>)))
   \<and> 0 < sint (height (header ((blankBitmap 2 2)\<lparr>pixelBuffer := [0x010203, 0x040506, 0x070809, 0x0A0B0C]\<rparr>)))
   \<and> sint (width (header ((blankBitmap 2 2)\<lparr>pixelBuffer := [0x010203, 0x040506, 0x070809, 0x0A0B0C]\<rparr>))) \<le> 89478484
   \<and> sint (width (header (blankBitmap 2 2))) * sint (height (header (blankBitmap 2 2))) < 2147483648
   \<and> nat (sint (width (header (blankBitmap 2 2)))) * nat (sint (height (header (blankBitmap 2 2))))
        \<le> length [0x010203, 0x040506, 0x070809, 0x0A0B0C :: cint]
   \<and> writeBitmapData (\<lambda>i. of_nat i) \<lparr>written = [], accepting = True\<rparr>
      ((blankBitmap 2 2)\<lparr>pixelBuffer := [0x010203, 0x040506, 0x070809, 0x0A0B0C]\<rparr>) \<noteq> None
   \<and> (case the (writeBitmapData (\<lambda>i. of_nat i) \<lparr>written = [], accepting = True\<rparr>
          ((blankBitmap 2 2)\<lparr>pixelBuffer := [0x010203, 0x040506, 0x070809, 0x0A0B0C]\<rparr>)) of
        (st, out', b') \<Rightarrow>
          st = 0 \<and> written out' = bytes_of_header (header b')
            @ [9, 8, 7, 12, 11, 10, 6, 7] @ [3, 2, 1, 6, 5, 4, 6, 7])
   \<and> scanline ((blankBitmap 2 2)\<lparr>pixelBuffer := [0x010203, 0x040506, 0x070809, 0x0A0B0C]\<rparr>) 1
        ! (3 * 1 + 2) = 10"
proof -
  let ?b = "(blankBitmap 2 2)\<lparr>pixelBuffer := [0x010203, 0x040506, 0x070809, 0x0A0B0C]\<rparr>"
  let ?o = "\<lparr>written = [], accepting = True\<rparr>"
  let ?run = "writeBitmapData (\<lambda>i. of_nat i) ?o ?b"
  have W: "width (header (blankBitmap 2 2)) = 2" and H: "height (header (blankBitmap 2 2)) = 2"
    by (simp_all add: blankBitmap_def)
  have a: "accepting ?o" by simp
  have w: "0 < sint (width (header ?b))" by (simp add: W)
  have h: "0 < sint (height (header ?b))" by (simp add: H)
  have r: "sint (width (header ?b)) \<le> 89478484
      \<and> sint (width (header ?b)) * sint (height (header ?b)) < 2147483648
      \<and> nat (sint (width (header ?b))) * nat (sint (height (header ?b)))
           \<le> length (pixelBuffer ?b)"
    by (simp add: W H)
  note t = writeBitmapData_scanlines [OF a w h, of "\<lambda>i. of_nat i"]
  from conjunct1 [OF t] r obtain out' b' where run: "?run = Some (0, out', b')"
    by blast
  from conjunct2 [OF t] run
  have out: "written out' = written ?o @ bytes_of_header (header b')
           @ concat (map (\<lambda>y. scanline ?b (of_nat y)
                 @ map (\<lambda>i. of_nat i) [3 * nat (sint (width (header ?b)))..<
                      nat (sint (BMP_BYTES_PER_LINE (width (header ?b)) BITCOUNT))])
               (rev [0..<nat (sint (height (header ?b)))]))"
    and cells: "1 < nat (sint (height (header ?b)))
      \<and> 1 < nat (sint (width (header ?b))) \<and> (2 :: nat) < 3 \<longrightarrow>
    (\<exists>c. array_get (pixelBuffer ?b) (GET_PIXEL_INDEX (of_nat 1) (of_nat 1) (width (header ?b)))
            = Some c
       \<and> scanline ?b (of_nat 1) ! (3 * 1 + 2) = bytes_of_int c ! 2)"
    by blast+
  have sc: "scanline ?b 1 = [9, 8, 7, 12, 11, 10]" "scanline ?b 0 = [3, 2, 1, 6, 5, 4]"
    by (simp_all add: scanline_def pixelBytes_def blankBitmap_def GET_PIXEL_INDEX_def
        bytes_of_int_def drop_bit_eq_div upt_conv_Cons)
  have st: "sint (BMP_BYTES_PER_LINE 2 BITCOUNT) = 8"
    by (simp add: BMP_BYTES_PER_LINE_def BITCOUNT_def c_div_def signed_divide_int_def)
  from cells have "scanline ?b 1 ! (3 * 1 + 2) = 10"
    by (simp add: W H array_get_def GET_PIXEL_INDEX_def bytes_of_int_def drop_bit_eq_div)
  with out run a w h r
  show ?thesis
    by (simp add: sc st W H upt_conv_Cons)
qed

text \<open>
  C9 as stated, for every canvas, fails on the bitmap of width 89478486 and height 1 that
  \<^verbatim>\<open>newBitmap\<close> returns: its row stride wraps around to a negative number, and the
  encoder emits no row but meets undefined behaviour at its line buffer.
\<close>

theorem writeBitmapData_scanlines_counterexample:
  "0 < sint (width (header (blankBitmap 89478486 1)))
   \<and> 0 < sint (height (header (blankBitmap 89478486 1)))
   \<and> length (pixelBuffer (blankBitmap 89478486 1)) = 89478486
   \<and> newBitmap (\<lambda>nmemb sz. True) 89478486 1 = Some (blankBitmap 89478486 1)
   \<and> sint (BMP_BYTES_PER_LINE (width (header (blankBitmap 89478486 1))) BITCOUNT) = - 268435448
   \<and> writeBitmapData (\<lambda>i. 0) \<lparr>written = [], accepting = True\<rparr> (blankBitmap 89478486 1)
       = None"
  by (simp add: newBitmap_def writeBitmapData_def Let_def blankBitmap_def size_t_nonneg
      calloc_bitmapData_def BMP_BYTES_PER_LINE_def BITCOUNT_def c_div_def
      signed_divide_int_def word_sle_eq)

text \<open>
  C2, as the code has it. The encoder never writes the padding bytes of its line buffer,
  which it does not initialise either: in every row that it emits, the bytes after the
  \<open>width * 3\<close> pixel bytes and up to the row stride are the bytes that the memory under
  the line buffer held, the same ones in every row.
\<close>

theorem writeBitmapData_padding:
  assumes "writeBitmapData stack out bitmap = Some (st, out', bitmap')"
    and "accepting out"
    and "0 < sint (width (header bitmap))" and "0 < sint (height (header bitmap))"
    and "k < nat (sint (height (header bitmap)))"
  shows "drop (3 * nat (sint (width (header bitmap))))
           (take (nat (sint (BMP_BYTES_PER_LINE (width (header bitmap)) BITCOUNT)))
             (drop (54 + k * nat (sint (BMP_BYTES_PER_LINE (width (header bitmap)) BITCOUNT)))
               (drop (length (written out)) (written out'))))
         = map stack [3 * nat (sint (width (header bitmap)))..<
                        nat (sint (BMP_BYTES_PER_LINE (width (header bitmap)) BITCOUNT))]"
proof -
  let ?W = "nat (sint (width (header bitmap)))"
  let ?S = "nat (sint (BMP_BYTES_PER_LINE (width (header bitmap)) BITCOUNT))"
  let ?H = "nat (sint (height (header bitmap)))"
  let ?row = "\<lambda>y. scanline bitmap (of_nat y) @ map stack [3 * ?W..<?S]"
  let ?rows = "map ?row (rev [0..<?H])"
  have w0: "0 \<le> sint (width (header bitmap))" using assms(3) by simp
  note facts = writeBitmapData_Some [OF assms(1,2) w0 assms(4)]
  have rl: "\<And>r. r \<in> set ?rows \<Longrightarrow> length r = ?S"
    using facts(10) by (auto simp add: scanline_length)
  have "drop (length (written out)) (written out') = bytes_of_header (header bitmap') @ concat ?rows"
    unfolding facts(12) by simp
  then have "drop (54 + k * ?S) (drop (length (written out)) (written out'))
      = drop (k * ?S) (concat ?rows)"
    using facts(8) by simp
  then have "take ?S (drop (54 + k * ?S) (drop (length (written out)) (written out')))
      = ?rows ! k"
    using concat_chunk [of ?rows ?S k, OF rl] assms(5) by simp
  also have "\<dots> = ?row (rev [0..<?H] ! k)"
    using assms(5) by simp
  finally show ?thesis
    by (simp add: scanline_length)
qed

theorem writeBitmapData_padding_witness:
  "writeBitmapData (\<lambda>i. 0xAA) \<lparr>written = [], accepting = True\<rparr> (blankBitmap 1 1) \<noteq> None
   \<and> accepting \<lparr>written = [], accepting = True\<rparr>
   \<and> 0 < sint (width (header (blankBitmap 1 1)))
   \<and> 0 < sint (height (header (blankBitmap 1 1)))
   \<and> (0 :: nat) < nat (sint (height (header (blankBitmap 1 1))))
   \<and> (case the (writeBitmapData (\<lambda>i. 0xAA) \<lparr>written = [], accepting = True\<rparr>
          (blankBitmap 1 1)) of
        (st, out', b') \<Rightarrow> drop 3 (take 4 (drop 54 (written out'))) = [0xAA])"
proof -
  let ?b = "blankBitmap 1 1"
  let ?o = "\<lparr>written = [], accepting = True\<rparr>"
  let ?run = "writeBitmapData (\<lambda>i. 0xAA) ?o ?b"
  have "map_option (\<lambda>(st, out', b'). st) ?run = Some 0"
    by (simp add: encoder_eval upt_conv_Cons)
  then obtain st out' b' where run: "?run = Some (st, out', b')"
    by (cases ?run) auto
  have a: "accepting ?o" by simp
  have w: "0 < sint (width (header ?b))" by (simp add: blankBitmap_def)
  have h: "0 < sint (height (header ?b))" by (simp add: blankBitmap_def)
  have k: "(0 :: nat) < nat (sint (height (header ?b)))" by (simp add: blankBitmap_def)
  have st: "sint (BMP_BYTES_PER_LINE 1 BITCOUNT) = 4"
    by (simp add: BMP_BYTES_PER_LINE_def BITCOUNT_def c_div_def signed_divide_int_def)
  from writeBitmapData_padding [OF run a w h k] run a w h k
  show ?thesis
    by (simp add: st blankBitmap_def upt_conv_Cons)
qed

text \<open>
  C2 as stated fails when that memory is not zero: with \<open>0xAA\<close> in it, the one row of
  the blank 1 by 1 bitmap is emitted as 0, 0, 0, \<open>0xAA\<close>.
\<close>

theorem writeBitmapData_padding_counterexample:
  "map_option (\<lambda>(st, out', b'). (st, drop 54 (written out')))
     (writeBitmapData (\<lambda>i. 0xAA) \<lparr>written = [], accepting = True\<rparr> (blankBitmap 1 1))
   = Some (0, [0, 0, 0, 0xAA])"
  by (simp add: encoder_eval bytes_of_header_def bytes_of_short_def upt_conv_Cons)

text \<open>
  C6, as the code has it. For every bitmap of positive width and height and every run of
  the encoder that returns, on a stream that takes the writes, the encoder emits
  \<open>54 + stride * height\<close> bytes; the size fields of the header hold \<open>stride * height\<close>
  and that plus 54, computed in 32-bit arithmetic, which are the true sizes whenever
  these fit; the four bytes at offset 10 are 54, 0, 0, 0, and the bytes at offsets 2 and
  34 are those of the two size fields.
\<close>

theorem writeBitmapData_sizes:
  assumes "writeBitmapData stack out bitmap = Some (st, out', bitmap')"
    and "accepting out"
    and "0 < sint (width (header bitmap))" and "0 < sint (height (header bitmap))"
  shows "length (written out') = length (written out) + 54
           + nat (sint (BMP_BYTES_PER_LINE (width (header bitmap)) BITCOUNT))
             * nat (sint (height (header bitmap)))
    \<and> imageSize (header bitmap')
         = BMP_BYTES_PER_LINE (width (header bitmap)) BITCOUNT * height (header bitmap)
    \<and> fileSize (header bitmap') = imageSize (header bitmap') + 54
    \<and> take 4 (drop 2 (drop (length (written out)) (written out')))
         = bytes_of_int (fileSize (header bitmap'))
    \<and> take 4 (drop 10 (drop (length (written out)) (written out'))) = [54, 0, 0, 0]
    \<and> take 4 (drop 34 (drop (length (written out)) (written out')))
         = bytes_of_int (imageSize (header bitmap'))
    \<and> (sint (BMP_BYTES_PER_LINE (width (header bitmap)) BITCOUNT)
          * sint (height (header bitmap)) + 54 < 2147483648 \<longrightarrow>
        sint (imageSize (header bitmap'))
          = sint (BMP_BYTES_PER_LINE (width (header bitmap)) BITCOUNT)
            * sint (height (header bitmap))
        \<and> sint (fileSize (header bitmap')) = sint (imageSize (header bitmap')) + 54)"
proof -
  let ?W = "nat (sint (width (header bitmap)))"
  let ?bpr = "BMP_BYTES_PER_LINE (width (header bitmap)) BITCOUNT"
  let ?S = "nat (sint ?bpr)"
  let ?H = "nat (sint (height (header bitmap)))"
  let ?rows = "map (\<lambda>y. scanline bitmap (of_nat y) @ map stack [3 * ?W..<?S]) (rev [0..<?H])"
  let ?emitted = "drop (length (written out)) (written out')"
  have w0: "0 \<le> sint (width (header bitmap))" using assms(3) by simp
  note facts = writeBitmapData_Some [OF assms(1,2) w0 assms(4)]
  have rl: "\<And>r. r \<in> set ?rows \<Longrightarrow> length r = ?S"
    using facts(10) by (auto simp add: scanline_length)
  have em: "?emitted = bytes_of_header (header bitmap') @ concat ?rows"
    unfolding facts(12) by simp
  have 1: "length (written out') = length (written out) + 54 + ?S * ?H"
    unfolding facts(12) using concat_same_length [of ?rows ?S, OF rl] facts(8) by simp
  have hd: "bytes_of_header (header bitmap') = [0x42, 0x4D] @ bytes_of_int (fileSize (header bitmap'))
      @ bytes_of_int (reserved (header bitmap')) @ bytes_of_int (imageOffset (header bitmap'))
      @ bytes_of_int (headerSize (header bitmap')) @ bytes_of_int (width (header bitmap'))
      @ bytes_of_int (height (header bitmap')) @ bytes_of_short (planes (header bitmap'))
      @ bytes_of_short (bitCount (header bitmap')) @ bytes_of_int (compression (header bitmap'))
      @ bytes_of_int (imageSize (header bitmap')) @ bytes_of_int (xPixelsPerMeter (header bitmap'))
      @ bytes_of_int (yPixelsPerMeter (header bitmap')) @ bytes_of_int (colorsUsed (header bitmap'))
      @ bytes_of_int (colorsImportant (header bitmap'))"
    by (simp add: bytes_of_header_def facts(13))
  have 4: "take 4 (drop 2 ?emitted) = bytes_of_int (fileSize (header bitmap'))"
    unfolding em hd by (simp add: bytes_of_int_def bytes_of_short_def)
  have 5: "take 4 (drop 10 ?emitted) = [54, 0, 0, 0]"
    unfolding em hd by (simp add: bytes_of_int_def bytes_of_short_def facts(7))
  have 6: "take 4 (drop 34 ?emitted) = bytes_of_int (imageSize (header bitmap'))"
    unfolding em hd by (simp add: bytes_of_int_def bytes_of_short_def)
  have 7: "sint (imageSize (header bitmap')) = sint ?bpr * sint (height (header bitmap))
        \<and> sint (fileSize (header bitmap')) = sint (imageSize (header bitmap')) + 54"
    if lt: "sint ?bpr * sint (height (header bitmap)) + 54 < 2147483648"
  proof -
    have p: "0 \<le> sint ?bpr * sint (height (header bitmap))"
      using facts(9) assms(4) by simp
    have a: "sint (?bpr * height (header bitmap)) = sint ?bpr * sint (height (header bitmap))"
      using p lt by (simp add: sint_mult32)
    have b: "sint (?bpr * height (header bitmap) + 54)
        = sint (?bpr * height (header bitmap)) + 54"
      using p lt a by (simp add: sint_add32)
    show ?thesis
      unfolding facts(6) facts(5) using a b by simp
  qed
  from 1 facts(5) facts(6) 4 5 6 7 show ?thesis by blast
qed

theorem writeBitmapData_sizes_witness:
  "writeBitmapData (\<lambda>i. 0) \<lparr>written = [], accepting = True\<rparr> (blankBitmap 5 3) \<noteq> None
   \<and> accepting \<lparr>written = [], accepting = True\<rparr>
   \<and> 0 < sint (width (header (blankBitmap 5 3)))
   \<and> 0 < sint (height (header (blankBitmap 5 3)))
   \<and> (case the (writeBitmapData (\<lambda>i. 0) \<lparr>written = [], accepting = True\<rparr>
          (blankBitmap 5 3)) of
        (st, out', b') \<Rightarrow>
          length (written out') = 54 + 16 * 3
          \<and> sint (imageSize (header b')) = 48 \<and> sint (fileSize (header b')) = 102
          \<and> take 4 (drop 2 (written out')) = [102, 0, 0, 0]
          \<and> take 4 (drop 10 (written out')) = [54, 0, 0, 0]
          \<and> take 4 (drop 34 (written out')) = [48, 0, 0, 0])"
proof -
  let ?b = "blankBitmap 5 3"
  let ?o = "\<lparr>written = [], accepting = True\<rparr>"
  let ?run = "writeBitmapData (\<lambda>i. 0) ?o ?b"
  have "map_option (\<lambda>(st, out', b'). st) ?run = Some 0"
    by (simp add: encoder_eval upt_conv_Cons)
  then obtain st out' b' where run: "?run = Some (st, out', b')"
    by (cases ?run) auto
  have a: "accepting ?o" by simp
  have w: "0 < sint (width (header ?b))" by (simp add: blankBitmap_def)
  have h: "0 < sint (height (header ?b))" by (simp add: blankBitmap_def)
  have st: "BMP_BYTES_PER_LINE 5 BITCOUNT = 16"
    by (simp add: BMP_BYTES_PER_LINE_def BITCOUNT_def c_div_def signed_divide_int_def)
  from writeBitmapData_sizes [OF run a w h] run a w h
  show ?thesis
    by (simp add: st blankBitmap_def bytes_of_int_def drop_bit_eq_div)
qed

text \<open>
  The example of C6 fails: for width 4 and height 2 the stride is 12, not 16, and the
  file has 78 bytes, not 86 (the bytes at offset 10 are those of 54, as stated).
\<close>

theorem writeBitmapData_sizes_counterexample:
  "sint (BMP_BYTES_PER_LINE 4 BITCOUNT) = 12
   \<and> map_option (\<lambda>(st, out', b'). (length (written out'), sint (imageSize (header b')),
        sint (fileSize (header b')), take 4 (drop 10 (written out'))))
     (writeBitmapData (\<lambda>i. 0) \<lparr>written = [], accepting = True\<rparr> (blankBitmap 4 2))
   = Some (78, 24, 78, [54, 0, 0, 0])"
  by (simp add: encoder_eval bytes_of_header_def bytes_of_short_def upt_conv_Cons)

section \<open>Saving and creating\<close>

text \<open>
  C4, as the code has it. \<^verbatim>\<open>saveBitmap\<close> returns the failure status \<open>-1\<close> exactly when
  the file cannot be opened. When the file is opened, its result is that of
  \<^verbatim>\<open>writeBitmapData\<close> with the status 0 in place of the one returned: it returns 0 on
  every bitmap on which the encoder returns, among them the bitmaps of width 1 to
  89478484 whose cells are allocated and the bitmaps without columns and with row stride
  0, whether the writes succeeded or not.
\<close>

theorem saveBitmap_status:
  "(fopen filename = None \<longrightarrow>
      saveBitmap fopen stack filename bitmap = Some (- 1, None, bitmap))
   \<and> (\<forall>out. fopen filename = Some out \<longrightarrow>
        saveBitmap fopen stack filename bitmap =
          map_option (\<lambda>(r, out', bitmap'). (0, Some out', bitmap'))
            (writeBitmapData stack out bitmap)
        \<and> (0 < sint (width (header bitmap)) \<and> sint (width (header bitmap)) \<le> 89478484
             \<and> 0 < sint (height (header bitmap))
             \<and> sint (width (header bitmap)) * sint (height (header bitmap)) < 2147483648
             \<and> nat (sint (width (header bitmap))) * nat (sint (height (header bitmap)))
                  \<le> length (pixelBuffer bitmap) \<longrightarrow>
            (\<exists>out' bitmap'. saveBitmap fopen stack filename bitmap
                               = Some (0, Some out', bitmap')))
        \<and> (sint (width (header bitmap)) \<le> 0
             \<and> 0 \<le> sint (BMP_BYTES_PER_LINE (width (header bitmap)) BITCOUNT) \<longrightarrow>
            (\<exists>out' bitmap'. saveBitmap fopen stack filename bitmap
                               = Some (0, Some out', bitmap'))))
   \<and> (\<forall>st f bitmap'. saveBitmap fopen stack filename bitmap = Some (st, f, bitmap') \<longrightarrow>
        (st = - 1 \<longleftrightarrow> fopen filename = None) \<and> (st = 0 \<longleftrightarrow> fopen filename \<noteq> None))"
proof (intro conjI allI impI)
  assume "fopen filename = None"
  then show "saveBitmap fopen stack filename bitmap = Some (- 1, None, bitmap)"
    by (simp add: saveBitmap_def)
next
  fix out
  assume o: "fopen filename = Some out"
  then show eq: "saveBitmap fopen stack filename bitmap =
          map_option (\<lambda>(r, out', bitmap'). (0, Some out', bitmap'))
            (writeBitmapData stack out bitmap)"
    by (auto simp add: saveBitmap_def split: Option.bind_splits)
  {
    assume "0 < sint (width (header bitmap)) \<and> sint (width (header bitmap)) \<le> 89478484
             \<and> 0 < sint (height (header bitmap))
             \<and> sint (width (header bitmap)) * sint (height (header bitmap)) < 2147483648
             \<and> nat (sint (width (header bitmap))) * nat (sint (height (header bitmap)))
                  \<le> length (pixelBuffer bitmap)"
    then obtain out' bitmap' where
      "writeBitmapData stack out bitmap = Some (0, out', bitmap')"
      using writeBitmapData_returns [of bitmap stack out] by blast
    then show "\<exists>out' bitmap'. saveBitmap fopen stack filename bitmap
                               = Some (0, Some out', bitmap')"
      unfolding eq by simp
  }
  {
    assume "sint (width (header bitmap)) \<le> 0
             \<and> 0 \<le> sint (BMP_BYTES_PER_LINE (width (header bitmap)) BITCOUNT)"
    then obtain out' bitmap' where
      "writeBitmapData stack out bitmap = Some (0, out', bitmap')"
      using writeBitmapData_returns_no_columns [of bitmap stack out] by blast
    then show "\<exists>out' bitmap'. saveBitmap fopen stack filename bitmap
                               = Some (0, Some out', bitmap')"
      unfolding eq by simp
  }
next
  fix st f bitmap'
  assume "saveBitmap fopen stack filename bitmap = Some (st, f, bitmap')"
  then show "(st = - 1) = (fopen filename = None)"
    by (auto simp add: saveBitmap_def split: option.splits Option.bind_splits)
next
  fix st f bitmap'
  assume "saveBitmap fopen stack filename bitmap = Some (st, f, bitmap')"
  then show "(st = 0) = (fopen filename \<noteq> None)"
    by (auto simp add: saveBitmap_def split: option.splits Option.bind_splits)
qed

theorem saveBitmap_status_witness:
  "(\<lambda>name. None :: FILE option) ''myBitmap.bmp'' = None
   \<and> saveBitmap (\<lambda>name. None) (\<lambda>i. 0) ''myBitmap.bmp'' (blankBitmap 1 1)
       = Some (- 1, None, blankBitmap 1 1)
   \<and> (\<lambda>name. Some \<lparr>written = [], accepting = True\<rparr>) ''myBitmap.bmp''
       = Some \<lparr>written = [], accepting = True\<rparr>
   \<and> 0 < sint (width (header (blankBitmap 1 1)))
   \<and> sint (width (header (blankBitmap 1 1))) \<le> 89478484
   \<and> 0 < sint (height (header (blankBitmap 1 1)))
   \<and> sint (width (header (blankBitmap 1 1))) * sint (height (header (blankBitmap 1 1)))
        < 2147483648
   \<and> nat (sint (width (header (blankBitmap 1 1)))) * nat (sint (height (header (blankBitmap 1 1))))
        \<le> length (pixelBuffer (blankBitmap 1 1))
   \<and> map_option (\<lambda>(st, f, b'). (st, map_option (\<lambda>f. drop 54 (written f)) f))
        (saveBitmap (\<lambda>name. Some \<lparr>written = [], accepting = True\<rparr>) (\<lambda>i. 0xAA)
           ''myBitmap.bmp'' (blankBitmap 1 1))
       = Some (0, Some [0, 0, 0, 0xAA])
   \<and> sint (width (header (blankBitmap 0 5))) \<le> 0
   \<and> 0 \<le> sint (BMP_BYTES_PER_LINE (width (header (blankBitmap 0 5))) BITCOUNT)
   \<and> map_option (\<lambda>(st, f, b'). (st, map_option (\<lambda>f. length (written f)) f))
        (saveBitmap (\<lambda>name. Some \<lparr>written = [], accepting = True\<rparr>) (\<lambda>i. 0xAA)
           ''myBitmap.bmp'' (blankBitmap 0 5))
       = Some (0, Some 54)"
proof -
  let ?o = "\<lparr>written = [], accepting = True\<rparr>"
  note t0 = saveBitmap_status [of "\<lambda>name. None" "''myBitmap.bmp''" "\<lambda>i. 0" "blankBitmap 1 1"]
  from conjunct1 [OF t0]
  have r: "saveBitmap (\<lambda>name. None) (\<lambda>i. 0) ''myBitmap.bmp'' (blankBitmap 1 1)
       = Some (- 1, None, blankBitmap 1 1)"
    by simp
  note t1 = saveBitmap_status [of "\<lambda>name. Some ?o" "''myBitmap.bmp''" "\<lambda>i. 0xAA"
      "blankBitmap 1 1"]
  from conjunct1 [OF conjunct2 [OF t1]]
  have e1: "saveBitmap (\<lambda>name. Some ?o) (\<lambda>i. 0xAA) ''myBitmap.bmp'' (blankBitmap 1 1) =
      map_option (\<lambda>(r, out', bitmap'). (0, Some out', bitmap'))
        (writeBitmapData (\<lambda>i. 0xAA) ?o (blankBitmap 1 1))"
    by simp
  have v1: "map_option (\<lambda>(st, out', b'). drop 54 (written out'))
      (writeBitmapData (\<lambda>i. 0xAA) ?o (blankBitmap 1 1)) = Some [0, 0, 0, 0xAA]"
    by (simp add: encoder_eval bytes_of_header_def bytes_of_short_def upt_conv_Cons)
  have s1: "map_option (\<lambda>(st, f, b'). (st, map_option (\<lambda>f. drop 54 (written f)) f))
        (saveBitmap (\<lambda>name. Some ?o) (\<lambda>i. 0xAA) ''myBitmap.bmp'' (blankBitmap 1 1))
       = Some (0, Some [0, 0, 0, 0xAA])"
    unfolding e1 using v1 by (cases "writeBitmapData (\<lambda>i. 0xAA) ?o (blankBitmap 1 1)") auto
  note t2 = saveBitmap_status [of "\<lambda>name. Some ?o" "''myBitmap.bmp''" "\<lambda>i. 0xAA"
      "blankBitmap 0 5"]
  from conjunct1 [OF conjunct2 [OF t2]]
  have e2: "saveBitmap (\<lambda>name. Some ?o) (\<lambda>i. 0xAA) ''myBitmap.bmp'' (blankBitmap 0 5) =
      map_option (\<lambda>(r, out', bitmap'). (0, Some out', bitmap'))
        (writeBitmapData (\<lambda>i. 0xAA) ?o (blankBitmap 0 5))"
    by simp
  have v2: "map_option (\<lambda>(st, out', b'). length (written out'))
      (writeBitmapData (\<lambda>i. 0xAA) ?o (blankBitmap 0 5)) = Some 54"
    by (simp add: encoder_eval bytes_of_header_def bytes_of_short_def upt_conv_Cons)
  have s2: "map_option (\<lambda>(st, f, b'). (st, map_option (\<lambda>f. length (written f)) f))
        (saveBitmap (\<lambda>name. Some ?o) (\<lambda>i. 0xAA) ''myBitmap.bmp'' (blankBitmap 0 5))
       = Some (0, Some 54)"
    unfolding e2 using v2 by (cases "writeBitmapData (\<lambda>i. 0xAA) ?o (blankBitmap 0 5)") auto
  have c: "0 < sint (width (header (blankBitmap 1 1)))"
    "sint (width (header (blankBitmap 1 1))) \<le> 89478484"
    "0 < sint (height (header (blankBitmap 1 1)))"
    "sint (width (header (blankBitmap 1 1))) * sint (height (header (blankBitmap 1 1)))
        < 2147483648"
    "nat (sint (width (header (blankBitmap 1 1)))) * nat (sint (height (header (blankBitmap 1 1))))
        \<le> length (pixelBuffer (blankBitmap 1 1))"
    "sint (width (header (blankBitmap 0 5))) \<le> 0"
    "0 \<le> sint (BMP_BYTES_PER_LINE (width (header (blankBitmap 0 5))) BITCOUNT)"
    by (simp_all add: blankBitmap_def size_t_nonneg BMP_BYTES_PER_LINE_def BITCOUNT_def
        c_div_def signed_divide_int_def)
  from r s1 s2 c show ?thesis by simp
qed

text \<open>
  C4 as stated fails on a file that opens and then takes no write: every \<^verbatim>\<open>fwrite\<close>
  returns 0 items, no byte reaches the file, and the status is 0.
\<close>

theorem saveBitmap_status_counterexample:
  "map_option (\<lambda>(st, f, b'). (st, map_option written f))
     (saveBitmap (\<lambda>name. Some \<lparr>written = [], accepting = False\<rparr>) (\<lambda>i. 0)
        ''myBitmap.bmp'' (blankBitmap 1 1))
   = Some (0, Some [])
   \<and> fst (fwrite [0, 0, 0, 0] 1 4 \<lparr>written = [], accepting = False\<rparr>) = 0"
  by (simp add: saveBitmap_def encoder_eval upt_conv_Cons)

text \<open>
  C3, as the code has it. \<^verbatim>\<open>newBitmap\<close> returns no bitmap exactly when \<^verbatim>\<open>calloc\<close>
  refuses the structure or the pixel buffer; it does not look at the sign of the width or
  of the height. When it returns a bitmap, the width and height are stored and all cells
  are zero, \<open>width * height\<close> of them for positive dimensions whose product fits 32 bits.
\<close>

theorem newBitmap_result:
  "newBitmap calloc w h =
     (if calloc 1 sizeof_bitmapData \<and> calloc (size_t (w * h)) sizeof_int
      then Some (blankBitmap w h) else None)
   \<and> width (header (blankBitmap w h)) = w \<and> height (header (blankBitmap w h)) = h
   \<and> pixelBuffer (blankBitmap w h) = replicate (size_t (w * h)) 0
   \<and> (0 < sint w \<and> 0 < sint h \<and> sint w * sint h < 2147483648 \<longrightarrow>
        size_t (w * h) = nat (sint w) * nat (sint h))"
proof -
  have "size_t (w * h) = nat (sint w) * nat (sint h)"
    if "0 < sint w \<and> 0 < sint h \<and> sint w * sint h < 2147483648"
  proof -
    from that have p: "0 \<le> sint w * sint h" by simp
    then have "- 2147483648 \<le> sint w * sint h" by linarith
    moreover from that have "sint w * sint h < 2147483648" by simp
    ultimately have "sint (w * h) = sint w * sint h" by (rule sint_mult32)
    with p that show ?thesis by (simp add: size_t_nonneg nat_mult_distrib)
  qed
  then show ?thesis
    by (simp add: newBitmap_def blankBitmap_def Let_def calloc_bitmapData_def)
qed

theorem newBitmap_result_witness:
  "newBitmap (\<lambda>nmemb sz. True) 4 2 = Some (blankBitmap 4 2)
   \<and> pixelBuffer (blankBitmap 4 2) = replicate 8 0
   \<and> 0 < sint (4 :: cint) \<and> 0 < sint (2 :: cint) \<and> sint (4 :: cint) * sint (2 :: cint) < 2147483648
   \<and> size_t (4 * 2) = nat (sint (4 :: cint)) * nat (sint (2 :: cint))"
  using newBitmap_result [of "\<lambda>nmemb sz. True" 4 2] by simp

text \<open>
  C3 as stated fails for the width \<open>-2\<close> and the height \<open>-3\<close>: the product is 6, and
  when \<^verbatim>\<open>calloc\<close> grants the 6 cells a bitmap is returned.
\<close>

theorem newBitmap_result_counterexample:
  "sint (- 2 :: cint) \<le> 0
   \<and> newBitmap (\<lambda>nmemb sz. True) (- 2) (- 3) = Some (blankBitmap (- 2) (- 3))
   \<and> pixelBuffer (blankBitmap (- 2) (- 3)) = replicate 6 0"
  by (simp add: newBitmap_def blankBitmap_def Let_def calloc_bitmapData_def size_t_nonneg)

end
